theory Spec2Isabelle
  imports Complex_Main "HOL-Library.AList" "HOL-Library.Sublist"
begin

section \<open>JavaScript values met by the request executor\<close>

text \<open>
  The request executor works on JSON documents: payload and credential values,
  decoded response bodies, accumulated pages. A value is a JSON value; numbers are
  integers (page sizes, offsets and limits are GraphQL \<^verbatim>\<open>Int\<close>s), objects keep their keys in
  insertion order. JavaScript's \<^verbatim>\<open>undefined\<close> is \<open>None\<close> of an option type wherever a
  property or a field may be absent.
\<close>

datatype json =
    JNull
  | JBool bool
  | JNum int
  | JStr string
  | JArr "json list"
  | JObj "(string \<times> json) list"

type_synonym vars = "(string \<times> json) list"

text \<open>Truthiness of a possibly undefined value, as \<^verbatim>\<open>!x\<close>, \<^verbatim>\<open>x || y\<close> and \<^verbatim>\<open>x ? a : b\<close> read it.\<close>

fun truthy :: "json option \<Rightarrow> bool" where
  "truthy None = False"
| "truthy (Some JNull) = False"
| "truthy (Some (JBool b)) = b"
| "truthy (Some (JNum n)) = (n \<noteq> 0)"
| "truthy (Some (JStr s)) = (s \<noteq> [])"
| "truthy (Some (JArr xs)) = True"
| "truthy (Some (JObj kvs)) = True"

text \<open>\<^verbatim>\<open>Array.isArray\<close>.\<close>

fun isArray :: "json option \<Rightarrow> bool" where
  "isArray (Some (JArr xs)) = True"
| "isArray v = False"

text \<open>
  Object spread \<^verbatim>\<open>{ ...a, ...b }\<close>: the keys of \<open>a\<close> in their order, a key of \<open>b\<close>
  overwriting the value in place or being appended.
\<close>

definition spread :: "vars \<Rightarrow> vars \<Rightarrow> vars" where
  "spread a b = fold (\<lambda>kv acc. AList.update (fst kv) (snd kv) acc) b a"

definition keys :: "vars \<Rightarrow> string list" where
  "keys m = map fst m"

subsection \<open>Decimal numerals and \<^verbatim>\<open>JSON.stringify\<close>\<close>

definition digit_char :: "nat \<Rightarrow> char" where
  "digit_char d = char_of (48 + d)"

fun show_nat :: "nat \<Rightarrow> string" where
  "show_nat n = (if n < 10 then [digit_char n] else show_nat (n div 10) @ [digit_char (n mod 10)])"

declare show_nat.simps [simp del]

definition show_int :: "int \<Rightarrow> string" where
  "show_int i = (if i < 0 then CHR ''-'' # show_nat (nat (- i)) else show_nat (nat i))"

definition hex_char :: "nat \<Rightarrow> char" where
  "hex_char d = (if d < 10 then char_of (48 + d) else char_of (87 + d))"

text \<open>
  The escapes of \<^verbatim>\<open>JSON.stringify\<close> on a string: the quote, the backslash, the five short
  escapes and \<^verbatim>\<open>\u00XX\<close> for the other control characters.
\<close>

definition escape_char :: "char \<Rightarrow> string" where
  "escape_char c =
     (if c = CHR 0x22 then [CHR 0x5C, CHR 0x22]
      else if c = CHR 0x5C then [CHR 0x5C, CHR 0x5C]
      else if c = CHR 0x08 then [CHR 0x5C, CHR ''b'']
      else if c = CHR 0x0C then [CHR 0x5C, CHR ''f'']
      else if c = CHR 0x0A then [CHR 0x5C, CHR ''n'']
      else if c = CHR 0x0D then [CHR 0x5C, CHR ''r'']
      else if c = CHR 0x09 then [CHR 0x5C, CHR ''t'']
      else if of_char c < (32::nat)
        then [CHR 0x5C, CHR ''u'', CHR ''0'', CHR ''0'',
              hex_char (of_char c div 16), hex_char (of_char c mod 16)]
      else [c])"

definition quote :: "string \<Rightarrow> string" where
  "quote s = CHR 0x22 # concat (map escape_char s) @ [CHR 0x22]"

fun intersperse :: "string \<Rightarrow> string list \<Rightarrow> string" where
  "intersperse sep [] = []"
| "intersperse sep [x] = x"
| "intersperse sep (x # y # ys) = x @ sep @ intersperse sep (y # ys)"

fun stringify :: "json \<Rightarrow> string" where
  "stringify JNull = ''null''"
| "stringify (JBool b) = (if b then ''true'' else ''false'')"
| "stringify (JNum n) = show_int n"
| "stringify (JStr s) = quote s"
| "stringify (JArr xs) = ''['' @ intersperse '','' (map stringify xs) @ '']''"
| "stringify (JObj kvs) =
     ''{'' @ intersperse '','' (map (\<lambda>kv. quote (fst kv) @ '':'' @ stringify (snd kv)) kvs) @ ''}''"

section \<open>Variable validation\<close>

text \<open>
  The character class \<^verbatim>\<open>\w\<close> of the regular expression \<^verbatim>\<open>/\{(\w+)\}/g\<close>: ASCII letters,
  digits and the underscore.
\<close>

definition is_word_char :: "char \<Rightarrow> bool" where
  "is_word_char c =
     (let n = (of_char c :: nat)
      in (48 \<le> n \<and> n \<le> 57) \<or> (65 \<le> n \<and> n \<le> 90) \<or> (97 \<le> n \<and> n \<le> 122) \<or> n = 95)"

text \<open>
  \<^verbatim>\<open>str.match(/\{(\w+)\}/g)\<close> followed by \<^verbatim>\<open>slice(1, -1)\<close>: the names of the non-overlapping
  matches, left to right. The scanner is outside a candidate (\<open>None\<close>) or has read an
  opening brace and the word characters \<open>w\<close> (reversed) since; a brace restarts the
  candidate and any other character drops it.
\<close>

fun scan_vars :: "string option \<Rightarrow> string \<Rightarrow> string list" where
  "scan_vars st [] = []"
| "scan_vars None (c # cs) =
     (if c = CHR ''{'' then scan_vars (Some []) cs else scan_vars None cs)"
| "scan_vars (Some w) (c # cs) =
     (if is_word_char c then scan_vars (Some (c # w)) cs
      else if c = CHR ''}'' \<and> w \<noteq> [] then rev w # scan_vars None cs
      else if c = CHR ''{'' then scan_vars (Some []) cs
      else scan_vars None cs)"

definition findTemplateVars :: "string \<Rightarrow> string list" where
  "findTemplateVars str = scan_vars None str"

text \<open>\<^verbatim>\<open>String(value)\<close> of an optional string field: an absent field reads \<^verbatim>\<open>undefined\<close>.\<close>

definition String_of :: "string option \<Rightarrow> string" where
  "String_of v = (case v of None \<Rightarrow> ''undefined'' | Some s \<Rightarrow> s)"

datatype PaginationType = OFFSET_BASED | PAGE_BASED | DISABLED

record Pagination =
  ptype :: PaginationType
  pageSize :: "int option"

datatype HttpMethod = GET | POST | PUT | DELETE | PATCH | HEAD | OPTIONS

text \<open>
  The fields of \<^verbatim>\<open>ApiConfig\<close> that \<^verbatim>\<open>callEndpoint\<close> reads. Headers and query parameters
  map strings to strings; an absent map is the empty one (\<^verbatim>\<open>endpoint.headers || {}\<close>).
\<close>

record ApiConfig =
  urlHost :: string
  urlPath :: "string option"
  http_method :: "HttpMethod option"
  queryParams :: "(string \<times> string) list"
  headers :: "(string \<times> string) list"
  body :: "string option"
  pagination :: "Pagination option"
  dataPath :: "string option"

definition validateVariables :: "ApiConfig \<Rightarrow> string list \<Rightarrow> string list" where
  "validateVariables generatedConfig vars =
     (let vars' = vars @ [''page'', ''limit'', ''offset''];
          varMatches = concat (map (\<lambda>v. findTemplateVars (String_of v))
            ([urlPath generatedConfig]
              @ map (\<lambda>kv. Some (snd kv)) (queryParams generatedConfig)
              @ map (\<lambda>kv. Some (snd kv)) (headers generatedConfig)
              @ [body generatedConfig]))
      in filter (\<lambda>v. v \<notin> set vars') varMatches)"

section \<open>The request executor\<close>

record request =
  req_method :: "HttpMethod option"
  req_url :: string
  req_headers :: "(string \<times> string) list"
  req_data :: json
  req_params :: "(string \<times> string) list"
  req_timeout :: int

record response =
  status :: int
  data :: "json option"
  resp_headers :: "(string \<times> string) list"

record RequestOptions =
  timeout :: "int option"
  retries :: "int option"
  retryDelay :: "int option"

text \<open>
  What \<^verbatim>\<open>callEndpoint\<close> can throw: the error for unresolved variables, with the names it
  lists; the \<^verbatim>\<open>SyntaxError\<close> of \<^verbatim>\<open>JSON.parse\<close> on the body; the error for a failed call,
  with the response; the error for an HTML page; the \<^verbatim>\<open>TypeError\<close> of a property read on
  \<^verbatim>\<open>null\<close> or \<^verbatim>\<open>undefined\<close>; and what \<^verbatim>\<open>callAxios\<close> throws.
\<close>

datatype error =
    UnresolvedVariables "string list"
  | SyntaxError
  | ApiCallFailed response
  | HtmlInsteadOfJson
  | TypeError
  | AxiosError string

text \<open>The message of \<open>UnresolvedVariables invalidVars\<close>.\<close>

definition unresolved_message :: "string list \<Rightarrow> string" where
  "unresolved_message invalidVars =
     ''The following variables are not defined: '' @ intersperse '', '' invalidVars"

text \<open>
  What \<^verbatim>\<open>callEndpoint\<close> imports from \<^verbatim>\<open>tools.js\<close> and from the JavaScript runtime. The
  executor is verified for every such runtime: \<open>replaceVariables\<close> and \<open>composeUrl\<close> are
  the helpers of \<^verbatim>\<open>tools.js\<close>, \<open>JSON_parse\<close> is \<^verbatim>\<open>JSON.parse\<close> (\<open>None\<close> when it throws
  a \<^verbatim>\<open>SyntaxError\<close>), and \<open>callAxios n req opts\<close> is the outcome of the HTTP call made
  with \<open>req\<close> after \<open>n\<close> earlier calls of the same run, an error when it throws.
\<close>

record runtime =
  replaceVariables :: "string \<Rightarrow> vars \<Rightarrow> string"
  composeUrl :: "string \<Rightarrow> string option \<Rightarrow> string"
  JSON_parse :: "string \<Rightarrow> json option"
  callAxios :: "nat \<Rightarrow> request \<Rightarrow> RequestOptions option \<Rightarrow> error + response"

text \<open>
  The variables of the loop, and the requests handed to \<^verbatim>\<open>callAxios\<close> so far (oldest
  first).
\<close>

record loop_state =
  allResults :: "json list"
  page :: int
  offset :: int
  hasMore :: bool
  loopCounter :: nat
  calls :: "request list"

text \<open>\<^verbatim>\<open>endpoint.pagination?.pageSize || 50\<close>.\<close>

definition limit_of :: "Pagination \<Rightarrow> int" where
  "limit_of pg = (case pageSize pg of None \<Rightarrow> 50 | Some n \<Rightarrow> if n = 0 then 50 else n)"

text \<open>The pagination variables of an iteration, and the loop variables after them.\<close>

definition paginate :: "ApiConfig \<Rightarrow> loop_state \<Rightarrow> vars \<times> loop_state" where
  "paginate endpoint st =
     (case pagination endpoint of
        None \<Rightarrow> ([], st\<lparr>hasMore := False\<rparr>)
      | Some pg \<Rightarrow>
          if ptype pg = PAGE_BASED then
            ([(''page'', JNum (page st)), (''limit'', JNum (limit_of pg))],
             st\<lparr>page := page st + 1\<rparr>)
          else if ptype pg = OFFSET_BASED then
            ([(''offset'', JNum (offset st)), (''limit'', JNum (limit_of pg))],
             st\<lparr>offset := offset st + limit_of pg\<rparr>)
          else ([], st\<lparr>hasMore := False\<rparr>))"

text \<open>\<^verbatim>\<open>const requestVars = { ...paginationVars, ...allVariables }\<close>.\<close>

definition requestVars :: "ApiConfig \<Rightarrow> vars \<Rightarrow> loop_state \<Rightarrow> vars" where
  "requestVars endpoint allVariables st = spread (fst (paginate endpoint st)) allVariables"

text \<open>The request of an iteration; parsing the interpolated body may throw.\<close>

definition build_request ::
  "runtime \<Rightarrow> ApiConfig \<Rightarrow> RequestOptions option \<Rightarrow> vars \<Rightarrow> error + request" where
  "build_request rt endpoint options rv =
     (let hs = map (\<lambda>kv. (fst kv, replaceVariables rt (snd kv) rv)) (headers endpoint);
          qs = map (\<lambda>kv. (fst kv, replaceVariables rt (snd kv) rv)) (queryParams endpoint);
          parsed = (case body endpoint of
                      None \<Rightarrow> Some (JObj [])
                    | Some b \<Rightarrow> if b = [] then Some (JObj [])
                                else JSON_parse rt (replaceVariables rt b rv))
      in case parsed of
           None \<Rightarrow> Inl SyntaxError
         | Some b \<Rightarrow>
             Inr \<lparr>req_method = http_method endpoint,
                  req_url = replaceVariables rt (composeUrl rt (urlHost endpoint) (urlPath endpoint)) rv,
                  req_headers = hs,
                  req_data = b,
                  req_params = qs,
                  req_timeout = (case options of
                                   None \<Rightarrow> 60000
                                 | Some opt \<Rightarrow> (case timeout opt of
                                                 None \<Rightarrow> 60000
                                               | Some t \<Rightarrow> if t = 0 then 60000 else t))\<rparr>)"

subsection \<open>Reading the response\<close>

definition is_digit :: "char \<Rightarrow> bool" where
  "is_digit c = (48 \<le> (of_char c :: nat) \<and> (of_char c :: nat) \<le> 57)"

text \<open>A property name that is an array index: a decimal numeral without leading zero.\<close>

definition array_index :: "string \<Rightarrow> nat option" where
  "array_index k =
     (if k \<noteq> [] \<and> list_all is_digit k \<and> (k = ''0'' \<or> hd k \<noteq> CHR ''0'')
      then Some (foldl (\<lambda>a c. 10 * a + (of_char c - 48)) 0 k) else None)"

text \<open>
  \<^verbatim>\<open>value[part]\<close> on a value that is neither \<^verbatim>\<open>null\<close> nor \<^verbatim>\<open>undefined\<close>: the own
  properties of objects, the elements and the length of arrays and strings. Members
  inherited from the built-in prototypes (methods, constructors) are not JSON values and
  are read as absent.
\<close>

fun js_get :: "json \<Rightarrow> string \<Rightarrow> json option" where
  "js_get (JObj kvs) k = map_of kvs k"
| "js_get (JArr xs) k =
     (if k = ''length'' then Some (JNum (int (length xs)))
      else case array_index k of
             None \<Rightarrow> None
           | Some i \<Rightarrow> if i < length xs then Some (xs ! i) else None)"
| "js_get (JStr s) k =
     (if k = ''length'' then Some (JNum (int (length s)))
      else case array_index k of
             None \<Rightarrow> None
           | Some i \<Rightarrow> if i < length s then Some (JStr [s ! i]) else None)"
| "js_get v k = None"

text \<open>\<^verbatim>\<open>response.data?.error\<close>.\<close>

definition data_error :: "json option \<Rightarrow> json option" where
  "data_error d = (case d of None \<Rightarrow> None | Some JNull \<Rightarrow> None | Some v \<Rightarrow> js_get v ''error'')"

definition call_failed :: "response \<Rightarrow> bool" where
  "call_failed r = (status r \<notin> {200, 201, 204} \<or> truthy (data_error (data r)))"

text \<open>
  \<^verbatim>\<open>String.prototype.trim\<close> and \<^verbatim>\<open>toLowerCase\<close> on strings of 8-bit characters (code
  units below 256): the white space there is tab, line feed, vertical tab, form feed,
  carriage return, space and the no-break space U+00A0; the letters with a lower case
  are A to Z and the Latin-1 capitals U+00C0 to U+00DE other than the multiplication
  sign U+00D7. White space and letters beyond U+00FF are not characters of the model.
\<close>

definition is_space :: "char \<Rightarrow> bool" where
  "is_space c = ((of_char c :: nat) \<in> {9, 10, 11, 12, 13, 32, 160})"

definition trim :: "string \<Rightarrow> string" where
  "trim s = rev (dropWhile is_space (rev (dropWhile is_space s)))"

definition to_lower :: "char \<Rightarrow> char" where
  "to_lower c = (if (65 \<le> (of_char c :: nat) \<and> (of_char c :: nat) \<le> 90)
                    \<or> (192 \<le> (of_char c :: nat) \<and> (of_char c :: nat) \<le> 222
                        \<and> (of_char c :: nat) \<noteq> 215)
                 then char_of ((of_char c :: nat) + 32) else c)"

text \<open>The test for an HTML page in place of JSON, on the first 100 characters.\<close>

definition is_html :: "json option \<Rightarrow> bool" where
  "is_html d =
     (case d of
        Some (JStr s) \<Rightarrow>
          (let h = map to_lower (trim (take 100 s))
           in prefix ''<!doctype html'' h \<or> prefix ''<html'' h)
      | _ \<Rightarrow> False)"

text \<open>\<^verbatim>\<open>dataPath.split('.')\<close>, the current segment accumulated in reverse.\<close>

fun split_acc :: "string \<Rightarrow> string \<Rightarrow> string list" where
  "split_acc cur [] = [rev cur]"
| "split_acc cur (c # cs) =
     (if c = CHR ''.'' then rev cur # split_acc [] cs else split_acc (c # cur) cs)"

definition split_dot :: "string \<Rightarrow> string list" where
  "split_dot s = split_acc [] s"

text \<open>
  The navigation loop over the path segments: the value reached and \<open>dataPathSuccess\<close>.
  Reading a property of \<^verbatim>\<open>null\<close> or \<^verbatim>\<open>undefined\<close> throws a \<^verbatim>\<open>TypeError\<close>.
\<close>

fun navigate :: "json option \<Rightarrow> string list \<Rightarrow> error + (json option \<times> bool)" where
  "navigate responseData [] = Inr (responseData, True)"
| "navigate responseData (part # parts) =
     (case responseData of
        None \<Rightarrow> Inl TypeError
      | Some JNull \<Rightarrow> Inl TypeError
      | Some v \<Rightarrow>
          if \<not> truthy (js_get v part) \<and> part \<noteq> ''$'' then Inr (responseData, False)
          else navigate (if truthy (js_get v part) then js_get v part else responseData) parts)"

definition extractData :: "ApiConfig \<Rightarrow> json option \<Rightarrow> error + (json option \<times> bool)" where
  "extractData endpoint d =
     (case dataPath endpoint of
        None \<Rightarrow> Inr (d, True)
      | Some p \<Rightarrow> if p = [] then Inr (d, True) else navigate d (split_dot p))"

subsection \<open>One iteration of the pagination loop\<close>

text \<open>
  The first half of the loop body: pagination variables, validation, the request, the
  HTTP call, the status and HTML checks and the navigation of \<open>dataPath\<close>. It yields the
  extracted \<open>responseData\<close> and the loop variables, with the request logged; a throw
  yields the error and the loop variables at that moment.
\<close>

definition fetch ::
  "runtime \<Rightarrow> ApiConfig \<Rightarrow> vars \<Rightarrow> RequestOptions option \<Rightarrow> loop_state
     \<Rightarrow> (error \<times> loop_state) + (json option \<times> loop_state)" where
  "fetch rt endpoint allVariables options st =
     (let st1 = snd (paginate endpoint st);
          rv = requestVars endpoint allVariables st;
          invalidVars = validateVariables endpoint (keys rv)
      in if length invalidVars > 0 then Inl (UnresolvedVariables invalidVars, st1)
         else (case build_request rt endpoint options rv of
                 Inl e \<Rightarrow> Inl (e, st1)
               | Inr req \<Rightarrow>
                   (let st2 = st1\<lparr>calls := calls st1 @ [req]\<rparr>
                    in (case callAxios rt (length (calls st1)) req options of
                          Inl e \<Rightarrow> Inl (e, st2)
                        | Inr resp \<Rightarrow>
                            if call_failed resp then Inl (ApiCallFailed resp, st2)
                            else if is_html (data resp) then Inl (HtmlInsteadOfJson, st2)
                            else (case extractData endpoint (data resp) of
                                    Inl e \<Rightarrow> Inl (e, st2)
                                  | Inr r \<Rightarrow> Inr (fst r, st2))))))"

text \<open>\<^verbatim>\<open>responseData.length < endpoint.pagination?.pageSize\<close>; no page size, no short page.\<close>

definition short_page :: "ApiConfig \<Rightarrow> json list \<Rightarrow> bool" where
  "short_page endpoint xs =
     (case pagination endpoint of
        None \<Rightarrow> False
      | Some pg \<Rightarrow> (case pageSize pg of None \<Rightarrow> False | Some n \<Rightarrow> int (length xs) < n))"

text \<open>The second half of the loop body: accumulation, and the counter.\<close>

definition accumulate :: "ApiConfig \<Rightarrow> json option \<Rightarrow> loop_state \<Rightarrow> loop_state" where
  "accumulate endpoint responseData st =
     (case responseData of
        Some (JArr xs) \<Rightarrow>
          (let st1 = (if short_page endpoint xs then st\<lparr>hasMore := False\<rparr> else st);
               st2 = (if stringify (JArr xs) \<noteq> stringify (JArr (allResults st1))
                      then st1\<lparr>allResults := allResults st1 @ xs\<rparr>
                      else st1\<lparr>hasMore := False\<rparr>)
           in st2\<lparr>loopCounter := loopCounter st2 + 1\<rparr>)
      | Some v \<Rightarrow>
          if truthy responseData \<and> length (allResults st) = 0
          then st\<lparr>allResults := allResults st @ [v], hasMore := False,
                   loopCounter := loopCounter st + 1\<rparr>
          else st\<lparr>hasMore := False, loopCounter := loopCounter st + 1\<rparr>
      | None \<Rightarrow> st\<lparr>hasMore := False, loopCounter := loopCounter st + 1\<rparr>)"

definition iteration ::
  "runtime \<Rightarrow> ApiConfig \<Rightarrow> vars \<Rightarrow> RequestOptions option \<Rightarrow> loop_state
     \<Rightarrow> (error \<times> loop_state) + loop_state" where
  "iteration rt endpoint allVariables options st =
     (case fetch rt endpoint allVariables options st of
        Inl e \<Rightarrow> Inl e
      | Inr r \<Rightarrow> Inr (accumulate endpoint (fst r) (snd r)))"

lemma paginate_loopCounter: "loopCounter (snd (paginate endpoint st)) = loopCounter st"
  by (simp add: paginate_def split: option.splits)

lemma fetch_loopCounter:
  "fetch rt endpoint allVariables options st = Inr (rd, st') \<Longrightarrow> loopCounter st' = loopCounter st"
  by (auto simp: fetch_def Let_def paginate_loopCounter split: if_splits sum.splits)

lemma accumulate_loopCounter: "loopCounter (accumulate endpoint rd st) = loopCounter st + 1"
  by (simp add: accumulate_def Let_def split: option.splits json.splits)

lemma iteration_loopCounter:
  "iteration rt endpoint allVariables options st = Inr st' \<Longrightarrow> loopCounter st' = loopCounter st + 1"
  by (auto simp: iteration_def accumulate_loopCounter split: sum.splits dest: fetch_loopCounter)

subsection \<open>The loop and \<^verbatim>\<open>callEndpoint\<close>\<close>

text \<open>
  \<^verbatim>\<open>while (hasMore && loopCounter <= 500) { ... }\<close>. The loop ends with the error thrown, if
  any, and the loop variables at the end.
\<close>

function callEndpoint_loop ::
  "runtime \<Rightarrow> ApiConfig \<Rightarrow> vars \<Rightarrow> RequestOptions option \<Rightarrow> loop_state
     \<Rightarrow> error option \<times> loop_state" where
  "callEndpoint_loop rt endpoint allVariables options st =
     (if hasMore st \<and> loopCounter st \<le> 500 then
        (case iteration rt endpoint allVariables options st of
           Inl e \<Rightarrow> (Some (fst e), snd e)
         | Inr st' \<Rightarrow> callEndpoint_loop rt endpoint allVariables options st')
      else (None, st))"
  by pat_completeness auto
termination
  by (relation "measure (\<lambda>(rt, endpoint, allVariables, options, st). 501 - loopCounter st)")
     (auto dest: iteration_loopCounter)

declare callEndpoint_loop.simps [simp del]

definition initial_state :: loop_state where
  "initial_state =
     \<lparr>allResults = [], page = 1, offset = 0, hasMore = True, loopCounter = 0, calls = []\<rparr>"

text \<open>The run of the loop from the initial variables.\<close>

definition run ::
  "runtime \<Rightarrow> ApiConfig \<Rightarrow> vars \<Rightarrow> vars \<Rightarrow> RequestOptions option \<Rightarrow> error option \<times> loop_state" where
  "run rt endpoint payload credentials options =
     callEndpoint_loop rt endpoint (spread payload credentials) options initial_state"

text \<open>\<^verbatim>\<open>allResults?.length == 1 ? allResults[0] : allResults\<close>.\<close>

definition returned_data :: "json list \<Rightarrow> json" where
  "returned_data all = (case all of [x] \<Rightarrow> x | _ \<Rightarrow> JArr all)"

text \<open>
  What follows the loop: the error propagates, or the function returns an object whose
  \<open>data\<close> field is computed from the accumulated results.
\<close>

definition finish :: "error option \<times> loop_state \<Rightarrow> error + json" where
  "finish r = (case fst r of Some e \<Rightarrow> Inl e | None \<Rightarrow> Inr (returned_data (allResults (snd r))))"

definition callEndpoint ::
  "runtime \<Rightarrow> ApiConfig \<Rightarrow> vars \<Rightarrow> vars \<Rightarrow> RequestOptions option \<Rightarrow> error + json" where
  "callEndpoint rt endpoint payload credentials options =
     finish (run rt endpoint payload credentials options)"

text \<open>The HTTP calls of a run, and the number of times the loop body was entered.\<close>

definition http_calls ::
  "runtime \<Rightarrow> ApiConfig \<Rightarrow> vars \<Rightarrow> vars \<Rightarrow> RequestOptions option \<Rightarrow> request list" where
  "http_calls rt endpoint payload credentials options =
     calls (snd (run rt endpoint payload credentials options))"

definition iterations :: "error option \<times> loop_state \<Rightarrow> nat" where
  "iterations r = loopCounter (snd r) + (case fst r of None \<Rightarrow> 0 | Some e \<Rightarrow> 1)"

section \<open>The claims' vocabulary\<close>

text \<open>
  The placeholders of a configuration, in the spec's words: the names \<open>{name}\<close> occurring
  in \<open>urlPath\<close>, in a header value, in a query parameter value or in the body.
\<close>

definition names_in :: "string option \<Rightarrow> string set" where
  "names_in v = (case v of None \<Rightarrow> {} | Some s \<Rightarrow> set (findTemplateVars s))"

definition placeholders :: "ApiConfig \<Rightarrow> string set" where
  "placeholders endpoint =
     names_in (urlPath endpoint)
     \<union> (\<Union>kv \<in> set (headers endpoint). set (findTemplateVars (snd kv)))
     \<union> (\<Union>kv \<in> set (queryParams endpoint). set (findTemplateVars (snd kv)))
     \<union> names_in (body endpoint)"

text \<open>
  The placeholders that neither the variable map nor the reserved names \<open>page\<close>,
  \<open>offset\<close>, \<open>limit\<close> bind.
\<close>

definition unbound :: "ApiConfig \<Rightarrow> vars \<Rightarrow> string set" where
  "unbound endpoint vs =
     {n. n \<in> placeholders endpoint \<and> n \<notin> set (keys vs) \<and> n \<notin> {''page'', ''offset'', ''limit''}}"

text \<open>The body is absent, empty, or its interpolated text is accepted by \<^verbatim>\<open>JSON.parse\<close>.\<close>

definition body_parses :: "runtime \<Rightarrow> ApiConfig \<Rightarrow> vars \<Rightarrow> bool" where
  "body_parses rt endpoint rv =
     (case body endpoint of
        None \<Rightarrow> True
      | Some b \<Rightarrow> b = [] \<or> JSON_parse rt (replaceVariables rt b rv) \<noteq> None)"

section \<open>A concrete runtime\<close>

text \<open>\<^verbatim>\<open>String(value)\<close> of a JSON value; an array joins its elements with commas.\<close>

fun to_String :: "json \<Rightarrow> string" where
  "to_String JNull = ''null''"
| "to_String (JBool b) = (if b then ''true'' else ''false'')"
| "to_String (JNum n) = show_int n"
| "to_String (JStr s) = s"
| "to_String (JArr xs) =
     intersperse '','' (map (\<lambda>x. if x = JNull then [] else to_String x) xs)"
| "to_String (JObj kvs) = ''[object Object]''"

text \<open>
  Modelled from the spec: \<^verbatim>\<open>replaceVariables\<close> of \<^verbatim>\<open>tools.js\<close> is not among the sources. The
  spec's interpolator replaces every \<open>{name}\<close> (name matching \<^verbatim>\<open>\w+\<close>) by the variable's
  value as a string and leaves an unbound placeholder as it is. The scanner is that of
  \<open>scan_vars\<close>, copying the text it passes.
\<close>

fun interpolate :: "vars \<Rightarrow> string option \<Rightarrow> string \<Rightarrow> string" where
  "interpolate vs None [] = []"
| "interpolate vs (Some w) [] = CHR ''{'' # rev w"
| "interpolate vs None (c # cs) =
     (if c = CHR ''{'' then interpolate vs (Some []) cs else c # interpolate vs None cs)"
| "interpolate vs (Some w) (c # cs) =
     (if is_word_char c then interpolate vs (Some (c # w)) cs
      else if c = CHR ''}'' \<and> w \<noteq> [] then
        (case map_of vs (rev w) of
           None \<Rightarrow> CHR ''{'' # rev w @ ''}''
         | Some v \<Rightarrow> to_String v) @ interpolate vs None cs
      else if c = CHR ''{'' then CHR ''{'' # rev w @ interpolate vs (Some []) cs
      else CHR ''{'' # rev w @ c # interpolate vs None cs)"

text \<open>
  A stand-in for \<^verbatim>\<open>composeUrl\<close> of \<^verbatim>\<open>tools.js\<close>, which is not among the sources and which
  the spec does not describe: host and path joined by one slash.
\<close>

definition join_url :: "string \<Rightarrow> string option \<Rightarrow> string" where
  "join_url host path =
     (let h = (if host \<noteq> [] \<and> last host = CHR ''/'' then butlast host else host);
          p = (case path of None \<Rightarrow> [] | Some q \<Rightarrow> q);
          p' = (if p \<noteq> [] \<and> hd p = CHR ''/'' then tl p else p)
      in h @ ''/'' @ p')"

subsection \<open>A parser for JSON texts\<close>

text \<open>
  \<^verbatim>\<open>JSON.parse\<close> on the texts whose values the type \<open>json\<close> holds: integer numbers, strings
  without \<^verbatim>\<open>\u\<close> escapes. A text that is not JSON is refused, as the \<^verbatim>\<open>SyntaxError\<close> of
  the built-in refuses it. The first argument of the mutually recursive parsers bounds
  the nesting and the number of elements; twice the length of the text is enough.
\<close>

definition is_json_ws :: "char \<Rightarrow> bool" where
  "is_json_ws c = ((of_char c :: nat) \<in> {9, 10, 13, 32})"

definition skip_ws :: "string \<Rightarrow> string" where
  "skip_ws s = dropWhile is_json_ws s"

fun parse_digits :: "nat \<Rightarrow> string \<Rightarrow> nat \<times> string" where
  "parse_digits acc [] = (acc, [])"
| "parse_digits acc (c # cs) =
     (if is_digit c then parse_digits (10 * acc + (of_char c - 48)) cs else (acc, c # cs))"

definition parse_nat_lit :: "string \<Rightarrow> (nat \<times> string) option" where
  "parse_nat_lit s =
     (case s of
        [] \<Rightarrow> None
      | c # cs \<Rightarrow>
          if c = CHR ''0'' then Some (0, cs)
          else if is_digit c then Some (parse_digits 0 s)
          else None)"

definition parse_number :: "string \<Rightarrow> (json \<times> string) option" where
  "parse_number s =
     (let neg = (s \<noteq> [] \<and> hd s = CHR ''-'')
      in case parse_nat_lit (if neg then tl s else s) of
           None \<Rightarrow> None
         | Some r \<Rightarrow>
             if snd r \<noteq> [] \<and> hd (snd r) \<in> {CHR ''.'', CHR ''e'', CHR ''E''} then None
             else Some (JNum (if neg then - int (fst r) else int (fst r)), snd r))"

definition unescape :: "char \<Rightarrow> char option" where
  "unescape e =
     (if e = CHR 0x22 \<or> e = CHR 0x5C \<or> e = CHR ''/'' then Some e
      else if e = CHR ''b'' then Some (CHR 0x08)
      else if e = CHR ''f'' then Some (CHR 0x0C)
      else if e = CHR ''n'' then Some (CHR 0x0A)
      else if e = CHR ''r'' then Some (CHR 0x0D)
      else if e = CHR ''t'' then Some (CHR 0x09)
      else None)"

text \<open>The characters of a string after its opening quote, up to the closing one.\<close>

fun parse_chars :: "string \<Rightarrow> string \<Rightarrow> (string \<times> string) option" where
  "parse_chars acc [] = None"
| "parse_chars acc [c] = (if c = CHR 0x22 then Some (rev acc, []) else None)"
| "parse_chars acc (c # e # cs) =
     (if c = CHR 0x22 then Some (rev acc, e # cs)
      else if c = CHR 0x5C then
        (case unescape e of None \<Rightarrow> None | Some ch \<Rightarrow> parse_chars (ch # acc) cs)
      else if (of_char c :: nat) < 32 then None
      else parse_chars (c # acc) (e # cs))"

definition parse_literal :: "string \<Rightarrow> (json \<times> string) option" where
  "parse_literal s =
     (if prefix ''null'' s then Some (JNull, drop 4 s)
      else if prefix ''true'' s then Some (JBool True, drop 4 s)
      else if prefix ''false'' s then Some (JBool False, drop 5 s)
      else parse_number s)"

fun parse_value :: "nat \<Rightarrow> string \<Rightarrow> (json \<times> string) option"
  and parse_elems :: "nat \<Rightarrow> json list \<Rightarrow> string \<Rightarrow> (json \<times> string) option"
  and parse_members :: "nat \<Rightarrow> (string \<times> json) list \<Rightarrow> string \<Rightarrow> (json \<times> string) option"
where
  "parse_value 0 s = None"
| "parse_value (Suc n) s =
     (case skip_ws s of
        [] \<Rightarrow> None
      | c # cs \<Rightarrow>
          if c = CHR ''['' then
            (case skip_ws cs of
               [] \<Rightarrow> None
             | d # ds \<Rightarrow> if d = CHR '']'' then Some (JArr [], ds) else parse_elems n [] cs)
          else if c = CHR ''{'' then
            (case skip_ws cs of
               [] \<Rightarrow> None
             | d # ds \<Rightarrow> if d = CHR ''}'' then Some (JObj [], ds) else parse_members n [] cs)
          else if c = CHR 0x22 then
            (case parse_chars [] cs of None \<Rightarrow> None | Some r \<Rightarrow> Some (JStr (fst r), snd r))
          else parse_literal (c # cs))"
| "parse_elems 0 acc s = None"
| "parse_elems (Suc n) acc s =
     (case parse_value n s of
        None \<Rightarrow> None
      | Some r \<Rightarrow>
          (case skip_ws (snd r) of
             [] \<Rightarrow> None
           | c # cs \<Rightarrow>
               if c = CHR '','' then parse_elems n (fst r # acc) cs
               else if c = CHR '']'' then Some (JArr (rev (fst r # acc)), cs)
               else None))"
| "parse_members 0 acc s = None"
| "parse_members (Suc n) acc s =
     (case skip_ws s of
        [] \<Rightarrow> None
      | q # qs \<Rightarrow>
          if q \<noteq> CHR 0x22 then None
          else (case parse_chars [] qs of
                  None \<Rightarrow> None
                | Some k \<Rightarrow>
                    (case skip_ws (snd k) of
                       [] \<Rightarrow> None
                     | c # cs \<Rightarrow>
                         if c \<noteq> CHR '':'' then None
                         else (case parse_value n cs of
                                 None \<Rightarrow> None
                               | Some r \<Rightarrow>
                                   (case skip_ws (snd r) of
                                      [] \<Rightarrow> None
                                    | d # ds \<Rightarrow>
                                        if d = CHR '','' then
                                          parse_members n (AList.update (fst k) (fst r) acc) ds
                                        else if d = CHR ''}'' then
                                          Some (JObj (AList.update (fst k) (fst r) acc), ds)
                                        else None)))))"

definition parse_json :: "string \<Rightarrow> json option" where
  "parse_json s =
     (case parse_value (2 * length s + 2) s of
        None \<Rightarrow> None
      | Some r \<Rightarrow> if skip_ws (snd r) = [] then Some (fst r) else None)"

text \<open>A server that answers the \<open>n\<close>-th call of a run with status 200 and the body \<open>pages n\<close>.\<close>

definition serve :: "(nat \<Rightarrow> json option) \<Rightarrow> nat \<Rightarrow> request \<Rightarrow> RequestOptions option \<Rightarrow> error + response" where
  "serve pages n req opts = Inr \<lparr>status = 200, data = pages n, resp_headers = []\<rparr>"

definition runtime_with :: "(nat \<Rightarrow> json option) \<Rightarrow> runtime" where
  "runtime_with pages =
     \<lparr>replaceVariables = (\<lambda>template vs. interpolate vs None template),
      composeUrl = join_url,
      JSON_parse = parse_json,
      callAxios = serve pages\<rparr>"

subsection \<open>Configurations and servers of the examples\<close>

definition users_endpoint :: ApiConfig where
  "users_endpoint =
     \<lparr>urlHost = ''https://api.example.com'', urlPath = Some ''/users/{id}'',
      http_method = Some GET, queryParams = [(''limit'', ''{limit}'')],
      headers = [(''Authorization'', ''Bearer {apikey}'')], body = None,
      pagination = None, dataPath = None\<rparr>"

definition form_endpoint :: ApiConfig where
  "form_endpoint =
     \<lparr>urlHost = ''https://api.example.com'', urlPath = Some ''/users/{id}'',
      http_method = Some POST, queryParams = [], headers = [],
      body = Some ''name=Bob'', pagination = None, dataPath = None\<rparr>"

definition no_pages :: "nat \<Rightarrow> json option" where
  "no_pages n = Some (JArr [])"

text \<open>The configuration has no pagination, or pagination of type \<open>DISABLED\<close>.\<close>

definition no_pagination :: "ApiConfig \<Rightarrow> bool" where
  "no_pagination endpoint =
     (case pagination endpoint of None \<Rightarrow> True | Some pg \<Rightarrow> ptype pg = DISABLED)"

definition disabled_endpoint :: ApiConfig where
  "disabled_endpoint = users_endpoint\<lparr>pagination := Some \<lparr>ptype = DISABLED, pageSize = Some 10\<rparr>\<rparr>"

definition paged_endpoint :: ApiConfig where
  "paged_endpoint =
     \<lparr>urlHost = ''https://api.example.com'', urlPath = Some ''/items'',
      http_method = Some GET, queryParams = [(''page'', ''{page}''), (''limit'', ''{limit}'')],
      headers = [], body = None,
      pagination = Some \<lparr>ptype = PAGE_BASED, pageSize = Some 1\<rparr>, dataPath = None\<rparr>"

definition counting_pages :: "nat \<Rightarrow> json option" where
  "counting_pages n = Some (JArr [JNum (int n)])"

definition same_pages :: "nat \<Rightarrow> json option" where
  "same_pages n = Some (JArr [JNum 1, JNum 2])"

definition repeating_pages :: "nat \<Rightarrow> json option" where
  "repeating_pages n =
     (if n = 0 then Some (JArr [JNum 1])
      else if n \<le> 2 then Some (JArr [JNum 2])
      else Some (JArr []))"


definition items_request :: "string \<Rightarrow> request" where
  "items_request p =
     \<lparr>req_method = Some GET, req_url = ''https://api.example.com/items'', req_headers = [],
      req_data = JObj [], req_params = [(''page'', p), (''limit'', ''1'')], req_timeout = 60000\<rparr>"

definition after_first_page :: loop_state where
  "after_first_page =
     \<lparr>allResults = [JNum 1, JNum 2], page = 2, offset = 0, hasMore = True, loopCounter = 1,
      calls = [items_request ''1'']\<rparr>"

text \<open>Pagination by page or by offset, with no page size; pagination by offset.\<close>

definition unset_page_size :: "ApiConfig \<Rightarrow> bool" where
  "unset_page_size endpoint =
     (case pagination endpoint of
        None \<Rightarrow> False
      | Some pg \<Rightarrow> (ptype pg = PAGE_BASED \<or> ptype pg = OFFSET_BASED) \<and> pageSize pg = None)"

definition offset_based :: "ApiConfig \<Rightarrow> bool" where
  "offset_based endpoint =
     (case pagination endpoint of None \<Rightarrow> False | Some pg \<Rightarrow> ptype pg = OFFSET_BASED)"

definition offset_endpoint :: ApiConfig where
  "offset_endpoint =
     \<lparr>urlHost = ''https://api.example.com'', urlPath = Some ''/items'',
      http_method = Some GET, queryParams = [(''offset'', ''{offset}''), (''limit'', ''{limit}'')],
      headers = [], body = None,
      pagination = Some \<lparr>ptype = OFFSET_BASED, pageSize = None\<rparr>, dataPath = None\<rparr>"


definition two_pages_then_done :: "nat \<Rightarrow> json option" where
  "two_pages_then_done n =
     (if n = 0 then Some (JArr [JNum 1])
      else if n = 1 then Some (JArr [JNum 2])
      else Some (JObj [(''done'', JBool True)]))"

definition one_page_then_done :: "nat \<Rightarrow> json option" where
  "one_page_then_done n =
     (if n = 0 then Some (JArr [JNum 7]) else Some (JObj [(''done'', JBool True)]))"

definition after_two_pages :: loop_state where
  "after_two_pages =
     \<lparr>allResults = [JNum 1, JNum 2], page = 3, offset = 0, hasMore = True, loopCounter = 2,
      calls = [items_request ''1'', items_request ''2'']\<rparr>"

section \<open>The calls to the language model\<close>

text \<open>\<^verbatim>\<open>String.prototype.includes\<close>: the second string occurs in the first.\<close>

fun str_includes :: "string \<Rightarrow> string \<Rightarrow> bool" where
  "str_includes [] sub = (sub = [])"
| "str_includes (c # cs) sub = (prefix sub (c # cs) \<or> str_includes cs sub)"

definition isOSeriesModel :: "string \<Rightarrow> bool" where
  "isOSeriesModel modelName = (str_includes modelName ''gpt-4o'' \<or> str_includes modelName ''o3'')"

datatype role = System | User | Assistant

type_synonym message = "role \<times> string"

text \<open>
  The fields of a chat completion request that vary between calls. The temperature is a
  rational number (JavaScript computes it in floating point); \<open>None\<close> is \<^verbatim>\<open>undefined\<close>,
  a parameter the request omits.
\<close>

record llm_request =
  llm_model :: string
  llm_temperature :: "rat option"
  llm_messages :: "message list"

text \<open>
  What the synthesizers take from their surroundings: the configured model names
  (\<^verbatim>\<open>getModelName()\<close> and \<^verbatim>\<open>getModelName(true)\<close>), the chat completion (the message of the
  error when the call throws, else the content of the first choice as a string),
  \<^verbatim>\<open>JSON.parse\<close>, and \<^verbatim>\<open>applyJsonataWithValidation\<close> of \<^verbatim>\<open>tools.js\<close>.
\<close>

record transformation =
  success :: bool
  result_data :: "json option"
  result_error :: string

record llm_runtime =
  modelName :: string
  schemaModelName :: string
  complete :: "llm_request \<Rightarrow> string + string"
  parse :: "string \<Rightarrow> json option"
  applyJsonataWithValidation :: "json \<Rightarrow> json option \<Rightarrow> json \<Rightarrow> string + transformation"

subsection \<open>\<^verbatim>\<open>generateMapping\<close>\<close>

text \<open>\<^verbatim>\<open>isOSeriesModel(modelName) ? undefined : Math.min(retry * 0.1, 1)\<close>.\<close>

definition mapping_temperature :: "string \<Rightarrow> nat \<Rightarrow> rat option" where
  "mapping_temperature name retry =
     (if isOSeriesModel name then None else Some (min (of_nat retry * (1 / 10)) 1))"

text \<open>A call returns a value or throws an error, given by its message.\<close>

datatype 'a outcome = Returned 'a | Threw string

text \<open>
  What a call of \<^verbatim>\<open>generateMapping\<close> leaves behind: its outcome (\<open>None\<close> is \<^verbatim>\<open>null\<close>), the
  message array it was given or created (\<open>None\<close> while \<^verbatim>\<open>undefined\<close>), which it extends
  in place, and the requests sent to the model, oldest first.
\<close>

record mapping_result =
  outcome_of :: "json option outcome"
  messages_of :: "message list option"
  requests_of :: "llm_request list"

text \<open>
  The body of the \<^verbatim>\<open>try\<close> block up to the \<^verbatim>\<open>return\<close>: the new message array and either the
  message of the error thrown or the content returned. \<open>prompt\<close> is the system and user
  message of a first call, or the message of the error thrown while the client and the
  prompt are made; in that case the message array of a first call is still \<^verbatim>\<open>undefined\<close>.
  The messages of the errors of \<^verbatim>\<open>JSON.parse\<close> and of a property read on \<^verbatim>\<open>null\<close> are
  abbreviated.
\<close>

definition attempt ::
  "llm_runtime \<Rightarrow> string + message list \<Rightarrow> json \<Rightarrow> json \<Rightarrow> nat \<Rightarrow> message list option
     \<Rightarrow> (string + json) \<times> message list option \<times> llm_request list" where
  "attempt rt prompt schema payload retry messages =
     (case prompt of
        Inl err \<Rightarrow> (Inl err, messages, [])
      | Inr initial \<Rightarrow>
          (let msgs = (case messages of None \<Rightarrow> initial | Some m \<Rightarrow> m);
               req = \<lparr>llm_model = modelName rt,
                      llm_temperature = mapping_temperature (modelName rt) retry,
                      llm_messages = msgs\<rparr>
           in (case complete rt req of
                 Inl err \<Rightarrow> (Inl err, Some msgs, [req])
               | Inr assistantResponse \<Rightarrow>
                   (let msgs1 = msgs @ [(Assistant, assistantResponse)]
                    in (case parse rt assistantResponse of
                          None \<Rightarrow> (Inl ''Unexpected token in JSON'', Some msgs1, [req])
                        | Some content \<Rightarrow>
                            if content = JNull
                            then (Inl ''Cannot read properties of null'', Some msgs1, [req])
                            else (case applyJsonataWithValidation rt payload
                                         (js_get content ''jsonata'') schema of
                                    Inl err \<Rightarrow> (Inl err, Some msgs1, [req])
                                  | Inr t \<Rightarrow>
                                      if \<not> success t
                                      then (Inl (''Validation failed: '' @ result_error t),
                                            Some msgs1, [req])
                                      else (Inr content, Some msgs1, [req])))))))"

text \<open>
  \<^verbatim>\<open>generateMapping(schema, payload, instruction, retry, messages)\<close>. In the \<^verbatim>\<open>catch\<close> block,
  \<^verbatim>\<open>messages.push\<close> on an array that is still \<^verbatim>\<open>undefined\<close> throws out of the function.
\<close>

function generateMapping ::
  "llm_runtime \<Rightarrow> string + message list \<Rightarrow> json \<Rightarrow> json \<Rightarrow> nat \<Rightarrow> message list option
     \<Rightarrow> mapping_result" where
  "generateMapping rt prompt schema payload retry messages =
     (case attempt rt prompt schema payload retry messages of
        (Inr content, msgs, reqs) \<Rightarrow>
          \<lparr>outcome_of = Returned (Some content), messages_of = msgs, requests_of = reqs\<rparr>
      | (Inl err, msgs, reqs) \<Rightarrow>
          if retry < 5 then
            (case msgs of
               None \<Rightarrow>
                 \<lparr>outcome_of = Threw ''Cannot read properties of undefined'',
                  messages_of = None, requests_of = reqs\<rparr>
             | Some m \<Rightarrow>
                 (let r = generateMapping rt prompt schema payload (retry + 1)
                            (Some (m @ [(User, err)]))
                  in r\<lparr>requests_of := reqs @ requests_of r\<rparr>))
          else \<lparr>outcome_of = Returned None, messages_of = msgs, requests_of = reqs\<rparr>)"
  by pat_completeness auto
termination
  by (relation "measure (\<lambda>(rt, prompt, schema, payload, retry, messages). 5 - retry)") auto

declare generateMapping.simps [simp del]

subsection \<open>\<^verbatim>\<open>generateApiConfig\<close> and \<^verbatim>\<open>attemptSchemaGeneration\<close>\<close>

text \<open>
  The request of \<^verbatim>\<open>generateApiConfig\<close>, from the model name, the three messages it
  builds and the previous messages.
\<close>

definition generateApiConfig_request ::
  "string \<Rightarrow> message \<Rightarrow> message \<Rightarrow> message \<Rightarrow> message list \<Rightarrow> llm_request" where
  "generateApiConfig_request name systemMessage initialUserMessage subsequentUserMessage
       previousMessages =
     (let messages = (if length previousMessages > 0
                      then previousMessages @ [subsequentUserMessage]
                      else [systemMessage, initialUserMessage]);
          retryCount = (if length previousMessages > 0
                        then (of_nat (length messages) - 2) / 2 else 0 :: rat);
          temperature = (if isOSeriesModel name then None
                         else Some (min (retryCount * (1 / 10)) 1))
      in \<lparr>llm_model = name, llm_temperature = temperature, llm_messages = messages\<rparr>)"

text \<open>The request of \<^verbatim>\<open>attemptSchemaGeneration(messages, retry)\<close>, the schema generator.\<close>

definition attemptSchemaGeneration_request :: "string \<Rightarrow> message list \<Rightarrow> nat \<Rightarrow> llm_request" where
  "attemptSchemaGeneration_request name messages retry =
     (let temperature = (if isOSeriesModel name \<and> retry > 0
                         then min ((3 / 10) * of_nat retry) 1 else 0 :: rat)
      in \<lparr>llm_model = name,
          llm_temperature = (if name = ''o3-mini'' then Some 0
                             else if prefix ''gpt-4'' name then Some temperature
                             else None),
          llm_messages = messages\<rparr>)"

subsection \<open>Vocabulary and examples for the synthesizers\<close>



text \<open>
  A model that drafts a mapping with a wrong field first and a right one once the
  conversation has grown, and stand-ins for \<^verbatim>\<open>applyJsonataWithValidation\<close>: one accepts a
  single expression, one rejects every expression.
\<close>

definition first_draft :: json where
  "first_draft = JObj [(''jsonata'', JStr ''{ name: user.firstName }''), (''confidence'', JNum 40),
     (''confidence_reasoning'', JStr ''guessed the field'')]"

definition second_draft :: json where
  "second_draft = JObj [(''jsonata'', JStr ''{ name: user.first }''), (''confidence'', JNum 90),
     (''confidence_reasoning'', JStr ''field found in the data'')]"

definition drafting_model :: "llm_request \<Rightarrow> string + string" where
  "drafting_model req =
     (if length (llm_messages req) \<le> 2 then Inr (stringify first_draft)
      else Inr (stringify second_draft))"

definition accepts_only :: "string \<Rightarrow> json \<Rightarrow> json option \<Rightarrow> json \<Rightarrow> string + transformation" where
  "accepts_only expr payload e schema =
     (if e = Some (JStr expr)
      then Inr \<lparr>success = True, result_data = Some (JObj [(''name'', JStr ''J'')]), result_error = []\<rparr>
      else Inr \<lparr>success = False, result_data = None, result_error = ''name is required''\<rparr>)"

definition rejects_all :: "json \<Rightarrow> json option \<Rightarrow> json \<Rightarrow> string + transformation" where
  "rejects_all payload e schema =
     Inr \<lparr>success = False, result_data = None, result_error = ''name is required''\<rparr>"

definition drafting_runtime :: llm_runtime where
  "drafting_runtime =
     \<lparr>modelName = ''gpt-4-turbo'', schemaModelName = ''gpt-4-turbo'', complete = drafting_model,
      parse = parse_json, applyJsonataWithValidation = accepts_only ''{ name: user.first }''\<rparr>"


definition name_schema :: json where
  "name_schema = JObj [(''type'', JStr ''object''),
     (''properties'', JObj [(''name'', JObj [(''type'', JStr ''string'')])])]"

definition user_payload :: json where
  "user_payload = JObj [(''user'', JObj [(''first'', JStr ''J''), (''last'', JStr ''D'')])]"

definition mapping_prompt :: "message list" where
  "mapping_prompt = [(System, ''You are a JSONata expert''), (User, ''Create a jsonata expression'')]"


definition reasoning_runtime :: llm_runtime where
  "reasoning_runtime = drafting_runtime\<lparr>modelName := ''openai/gpt-4o''\<rparr>"

section \<open>The job queue\<close>













section \<open>Preparing configurations\<close>

text \<open>
  What \<^verbatim>\<open>prepareTransform\<close>, \<^verbatim>\<open>prepareExtract\<close> and \<^verbatim>\<open>prepareEndpoint\<close> take from their
  surroundings in one call: the MD5 digest in hexadecimal (\<^verbatim>\<open>createHash('md5')\<close>),
  \<^verbatim>\<open>getSchemaFromData\<close> of \<^verbatim>\<open>tools.js\<close>, the value \<^verbatim>\<open>crypto.randomUUID()\<close> draws, the time,
  the documentation fetched (or the message of the error), the cache lookup of the
  datastore, the messages built from the prompts (with the instruction, the documentation,
  the available variables and the last error), and the language model.
\<close>

record synth_runtime =
  md5_hex :: "string \<Rightarrow> string"
  getSchemaFromData :: "json option \<Rightarrow> json option"
  randomUUID :: string
  now :: json
  getDocumentation :: "string + string"
  getTransformConfigFromRequest :: "json \<Rightarrow> json \<Rightarrow> string + json option"
  mapping_messages :: "string + message list"
  systemMessage :: message
  initialUserMessage :: message
  subsequentUserMessage :: message
  llm :: llm_runtime

text \<open>
  The own enumerable properties that an object spread copies: the entries of an object,
  the indexed elements of an array or of a string, nothing of another value.
\<close>

definition indexed :: "json list \<Rightarrow> vars" where
  "indexed xs = map (\<lambda>i. (show_nat i, xs ! i)) [0..<length xs]"

fun entries :: "json \<Rightarrow> vars" where
  "entries (JObj kvs) = kvs"
| "entries (JArr xs) = indexed xs"
| "entries (JStr s) = indexed (map (\<lambda>c. JStr [c]) s)"
| "entries v = []"

text \<open>
  An object literal: the properties in the order written, a later one replacing an
  earlier one of the same name. A property whose value is \<^verbatim>\<open>undefined\<close> is left out: it
  reads as \<^verbatim>\<open>undefined\<close> either way.
\<close>

definition object_of :: "(string \<times> json option) list \<Rightarrow> vars" where
  "object_of ps =
     spread [] (concat (map (\<lambda>p. case snd p of None \<Rightarrow> [] | Some v \<Rightarrow> [(fst p, v)]) ps))"

text \<open>
  \<^verbatim>\<open>createHash('md5').update(JSON.stringify({request: input, payloadKeys:
  getSchemaFromData(payload)})).digest('hex')\<close>.
\<close>

definition config_hash :: "synth_runtime \<Rightarrow> json \<Rightarrow> json option \<Rightarrow> string" where
  "config_hash rt input payload =
     md5_hex rt (stringify (JObj (object_of
       [(''request'', Some input), (''payloadKeys'', getSchemaFromData rt payload)])))"

text \<open>\<^verbatim>\<open>Object.keys(x).length\<close> of a value that is neither \<^verbatim>\<open>null\<close> nor \<^verbatim>\<open>undefined\<close>.\<close>

definition keys_length :: "json \<Rightarrow> nat" where
  "keys_length v = length (entries v)"

text \<open>\<^verbatim>\<open>typeof data === 'object'\<close> for a value that is not \<^verbatim>\<open>null\<close>.\<close>

fun is_object :: "json \<Rightarrow> bool" where
  "is_object (JObj kvs) = True"
| "is_object (JArr xs) = True"
| "is_object v = False"

text \<open>The test of \<^verbatim>\<open>prepareTransform\<close> on its data.\<close>

definition data_empty :: "json option \<Rightarrow> bool" where
  "data_empty d =
     (case d of
        None \<Rightarrow> True
      | Some v \<Rightarrow> \<not> truthy d \<or> (isArray d \<and> keys_length v = 0) \<or> (is_object v \<and> keys_length v = 0))"

definition prepareTransform ::
  "synth_runtime \<Rightarrow> bool \<Rightarrow> json \<Rightarrow> json option \<Rightarrow> json option outcome" where
  "prepareTransform rt fromCache input d =
     (case js_get input ''responseSchema'' of
        None \<Rightarrow> Returned None
      | Some responseSchema \<Rightarrow>
          if \<not> truthy (Some responseSchema) \<or> keys_length responseSchema = 0 then Returned None
          else (case d of
                  None \<Rightarrow> Returned None
                | Some payload \<Rightarrow>
                    if data_empty d then Returned None
                    else (case (if fromCache then getTransformConfigFromRequest rt input payload
                                else Inr None) of
                            Inl err \<Rightarrow> Threw err
                          | Inr cached \<Rightarrow>
                              if truthy cached
                              then Returned (Some (JObj (spread (case cached of
                                       None \<Rightarrow> [] | Some c \<Rightarrow> entries c) (entries input))))
                              else
                                (let hash = config_hash rt input d
                                 in if truthy (js_get input ''responseMapping'')
                                    then Returned (Some (JObj (spread
                                      (object_of
                                         [(''id'', Some (JStr hash)),
                                          (''createdAt'', Some (now rt)),
                                          (''updatedAt'', Some (now rt)),
                                          (''responseMapping'', js_get input ''responseMapping''),
                                          (''responseSchema'', Some responseSchema)])
                                      (entries input))))
                                    else
                                      (case outcome_of (generateMapping (llm rt) (mapping_messages rt)
                                              responseSchema payload 0 None) of
                                         Threw err \<Rightarrow> Threw err
                                       | Returned mapping \<Rightarrow>
                                           if truthy mapping
                                           then Returned (Some (JObj (spread
                                             (spread
                                                (object_of
                                                   [(''id'', Some (JStr hash)),
                                                    (''createdAt'', Some (now rt)),
                                                    (''updatedAt'', Some (now rt))])
                                                (entries input))
                                             (object_of
                                                [(''responseSchema'', Some responseSchema),
                                                 (''responseMapping'',
                                                    Option.bind mapping (\<lambda>m. js_get m ''jsonata'')),
                                                 (''confidence'',
                                                    Option.bind mapping (\<lambda>m. js_get m ''confidence'')),
                                                 (''confidence_reasoning'',
                                                    Option.bind mapping
                                                      (\<lambda>m. js_get m ''confidence_reasoning''))]))))
                                           else Returned None)))))"

text \<open>
  \<^verbatim>\<open>generateExtractConfig\<close>: one request without temperature; the answer is parsed and
  spread over the configuration.
\<close>

definition generateExtractConfig :: "synth_runtime \<Rightarrow> vars \<Rightarrow> string list \<Rightarrow> json outcome" where
  "generateExtractConfig rt extractConfig vars =
     (case complete (llm rt)
             \<lparr>llm_model = modelName (llm rt), llm_temperature = None,
              llm_messages = [systemMessage rt, initialUserMessage rt]\<rparr> of
        Inl err \<Rightarrow> Threw err
      | Inr content \<Rightarrow>
          (case parse (llm rt) content of
             None \<Rightarrow> Threw ''Unexpected token in JSON''
           | Some generatedConfig \<Rightarrow>
               Returned (JObj (spread extractConfig (entries generatedConfig)))))"

text \<open>\<^verbatim>\<open>Object.keys(x || {})\<close>.\<close>

definition keys_or_none :: "json option \<Rightarrow> string list" where
  "keys_or_none x = (case x of None \<Rightarrow> [] | Some v \<Rightarrow> if truthy x then keys (entries v) else [])"

definition prepareExtract ::
  "synth_runtime \<Rightarrow> json \<Rightarrow> json option \<Rightarrow> json option \<Rightarrow> json outcome" where
  "prepareExtract rt extractInput payload credentials =
     (let hash = config_hash rt extractInput payload;
          extractConfig = spread (entries extractInput)
            (object_of [(''createdAt'', Some (now rt)), (''updatedAt'', Some (now rt)),
                        (''id'', Some (JStr hash))])
      in case getDocumentation rt of
           Inl err \<Rightarrow> Threw err
         | Inr documentation \<Rightarrow>
             generateExtractConfig rt extractConfig (keys_or_none payload @ keys_or_none credentials))"

text \<open>
  \<^verbatim>\<open>generateApiConfig\<close>: the request, the parsed answer, and the configuration returned
  with the message log. Reading a property of an answer that is \<^verbatim>\<open>null\<close> throws.
\<close>

definition generateApiConfig ::
  "synth_runtime \<Rightarrow> vars \<Rightarrow> string list \<Rightarrow> message list \<Rightarrow> (json \<times> message list) outcome" where
  "generateApiConfig rt apiConfig vars previousMessages =
     (let req = generateApiConfig_request (modelName (llm rt)) (systemMessage rt)
                  (initialUserMessage rt) (subsequentUserMessage rt) previousMessages;
          own = (\<lambda>k. map_of apiConfig k)
      in case complete (llm rt) req of
           Inl err \<Rightarrow> Threw err
         | Inr content \<Rightarrow>
             (case parse (llm rt) content of
                None \<Rightarrow> Threw ''Unexpected token in JSON''
              | Some generatedConfig \<Rightarrow>
                  if generatedConfig = JNull then Threw ''Cannot read properties of null''
                  else
                    (let gen = js_get generatedConfig
                     in Returned
                          (JObj (object_of
                             [(''instruction'', own ''instruction''),
                              (''urlHost'', gen ''urlHost''),
                              (''urlPath'', gen ''urlPath''),
                              (''method'', gen ''method''),
                              (''queryParams'', gen ''queryParams''),
                              (''headers'', gen ''headers''),
                              (''body'', gen ''body''),
                              (''authentication'', gen ''authentication''),
                              (''pagination'', if truthy (own ''pagination'')
                                 then own ''pagination'' else gen ''pagination''),
                              (''dataPath'', if truthy (own ''dataPath'')
                                 then own ''dataPath'' else gen ''dataPath''),
                              (''documentationUrl'', own ''documentationUrl''),
                              (''responseSchema'', own ''responseSchema''),
                              (''responseMapping'', own ''responseMapping''),
                              (''createdAt'', if truthy (own ''createdAt'')
                                 then own ''createdAt'' else Some (now rt)),
                              (''updatedAt'', Some (now rt)),
                              (''id'', own ''id'')]),
                           llm_messages req @ [(Assistant, content)]))))"

definition prepareEndpoint ::
  "synth_runtime \<Rightarrow> json \<Rightarrow> json option \<Rightarrow> json option \<Rightarrow> message list
     \<Rightarrow> (json \<times> message list) outcome" where
  "prepareEndpoint rt endpointInput payload credentials previousMessages =
     (let apiCallConfig = spread (entries endpointInput)
            (object_of [(''createdAt'', Some (now rt)), (''updatedAt'', Some (now rt)),
                        (''id'', Some (JStr (randomUUID rt)))])
      in case getDocumentation rt of
           Inl err \<Rightarrow> Threw err
         | Inr documentation \<Rightarrow>
             generateApiConfig rt apiCallConfig (keys_or_none payload @ keys_or_none credentials)
               previousMessages)"

text \<open>The \<open>id\<close> of a configuration.\<close>

definition id_of :: "json \<Rightarrow> json option" where
  "id_of config = js_get config ''id''"

text \<open>The cache is not consulted, or holds nothing for the input and the data.\<close>

definition cache_miss :: "synth_runtime \<Rightarrow> bool \<Rightarrow> json \<Rightarrow> json option \<Rightarrow> bool" where
  "cache_miss rt fromCache input d =
     (\<not> fromCache \<or> (\<forall>p c. d = Some p \<and> getTransformConfigFromRequest rt input p = Inr c
                          \<longrightarrow> \<not> truthy c))"

text \<open>
  The model never answers with an \<open>id\<close> property; the schema sent with the request has
  none.
\<close>

definition answers_without_id :: "llm_runtime \<Rightarrow> bool" where
  "answers_without_id rt =
     (\<forall>req content g. complete rt req = Inr content \<and> parse rt content = Some g
        \<longrightarrow> ''id'' \<notin> set (keys (entries g)))"

text \<open>The input has no property \<open>id\<close>, as the GraphQL input types have none.\<close>

definition without_id :: "json \<Rightarrow> bool" where
  "without_id input = (''id'' \<notin> set (keys (entries input)))"

subsection \<open>Examples for the preparation of configurations\<close>

text \<open>
  Stand-ins for the digest and for \<^verbatim>\<open>getSchemaFromData\<close> in the examples (the theorems
  hold for every digest and every schema function): the length of the text, and the
  names of the keys. A model that answers with a configuration.
\<close>

definition length_digest :: "string \<Rightarrow> string" where
  "length_digest s = show_nat (length s)"

definition key_names :: "json option \<Rightarrow> json option" where
  "key_names d = map_option (\<lambda>v. JArr (map JStr (keys (entries v)))) d"

definition generated_config :: json where
  "generated_config = JObj [(''urlHost'', JStr ''https://api.example.com''),
     (''urlPath'', JStr ''/users''), (''method'', JStr ''GET''), (''authentication'', JStr ''NONE'')]"

definition configuring_runtime :: llm_runtime where
  "configuring_runtime =
     \<lparr>modelName = ''gpt-4-turbo'', schemaModelName = ''gpt-4-turbo'',
      complete = (\<lambda>req. Inr (stringify generated_config)),
      parse = parse_json, applyJsonataWithValidation = rejects_all\<rparr>"

definition synth_with :: "string \<Rightarrow> llm_runtime \<Rightarrow> synth_runtime" where
  "synth_with uuid model =
     \<lparr>md5_hex = length_digest, getSchemaFromData = key_names, randomUUID = uuid,
      now = JStr ''2025-01-01T00:00:00.000Z'', getDocumentation = Inr ''GET /users lists the users'',
      getTransformConfigFromRequest = (\<lambda>input payload. Inr None),
      mapping_messages = Inr mapping_prompt,
      systemMessage = (System, ''You are an API configuration assistant''),
      initialUserMessage = (User, ''Generate API configuration''),
      subsequentUserMessage = (User, ''The previous configuration failed''),
      llm = model\<rparr>"

definition transform_input :: json where
  "transform_input = JObj [(''instruction'', JStr ''full name''), (''responseSchema'', name_schema)]"

definition users_input :: json where
  "users_input = JObj [(''urlHost'', JStr ''https://api.example.com''),
     (''instruction'', JStr ''get all users'')]"


definition other_payload :: json where
  "other_payload = JObj [(''user'', JObj [(''first'', JStr ''A''), (''last'', JStr ''B'')])]"

definition first_uuid :: string where
  "first_uuid = ''1b4e28ba-2fa1-41d2-883f-0016d3cca427''"

definition second_uuid :: string where
  "second_uuid = ''6fa459ea-ee8a-4ca4-894e-db77e160355e''"

section \<open>Properties of the executor\<close>

subsection \<open>Variables and validation\<close>

lemma keys_update: "set (keys (AList.update k v m)) = insert k (set (keys m))"
  by (induction m) (auto simp: keys_def)

lemma keys_spread: "set (keys (spread a b)) = set (keys a) \<union> set (keys b)"
  unfolding spread_def
proof (induction b arbitrary: a)
  case Nil
  then show ?case by (simp add: keys_def)
next
  case (Cons kv b)
  then show ?case by (auto simp: keys_update) (auto simp: keys_def)
qed

lemma paginate_keys:
  "set (keys (fst (paginate endpoint st))) \<subseteq> {''page'', ''limit'', ''offset''}"
  by (auto simp: paginate_def keys_def split: option.splits)

lemma validateVariables_reserved:
  assumes "set vs \<union> {''page'', ''limit'', ''offset''} = set ws \<union> {''page'', ''limit'', ''offset''}"
  shows "validateVariables e vs = validateVariables e ws"
proof -
  have "set (vs @ [''page'', ''limit'', ''offset'']) = set (ws @ [''page'', ''limit'', ''offset''])"
    using assms by simp
  then show ?thesis
    unfolding validateVariables_def Let_def by presburger
qed

lemma validateVariables_requestVars:
  "validateVariables e (keys (requestVars e av st)) = validateVariables e (keys av)"
  unfolding requestVars_def
  using paginate_keys [of e st] by (intro validateVariables_reserved) (auto simp: keys_spread)

lemma findTemplateVars_undefined: "findTemplateVars ''undefined'' = []"
  by (simp add: findTemplateVars_def is_word_char_def)

lemma set_validateVariables: "set (validateVariables e (keys vs)) = unbound e vs"
  by (auto simp: validateVariables_def unbound_def placeholders_def names_in_def String_of_def
      findTemplateVars_undefined split: option.splits)

lemma paginate_calls: "calls (snd (paginate endpoint st)) = calls st"
  by (simp add: paginate_def split: option.splits)

lemma fetch_invalid:
  assumes "validateVariables e (keys av) \<noteq> []"
  shows "fetch rt e av opts st = Inl (UnresolvedVariables (validateVariables e (keys av)), snd (paginate e st))"
  using assms by (simp add: fetch_def Let_def validateVariables_requestVars)

lemma build_request_parses:
  "body_parses rt e rv \<Longrightarrow> \<exists>req. build_request rt e opts rv = Inr req"
  by (auto simp: body_parses_def build_request_def Let_def split: option.splits)

lemma build_request_fails:
  "\<not> body_parses rt e rv \<Longrightarrow> build_request rt e opts rv = Inl SyntaxError"
  by (auto simp: body_parses_def build_request_def Let_def split: option.splits)

text \<open>The log of HTTP calls only grows, by at most one request per iteration.\<close>

lemma fetch_calls_Inr:
  "fetch rt e av opts st = Inr (rd, st') \<Longrightarrow> \<exists>req. calls st' = calls st @ [req]"
  by (auto simp: fetch_def Let_def paginate_calls split: if_splits sum.splits)

lemma fetch_calls_Inl:
  "fetch rt e av opts st = Inl (err, st') \<Longrightarrow> calls st' = calls st \<or> (\<exists>req. calls st' = calls st @ [req])"
  by (auto simp: fetch_def Let_def paginate_calls split: if_splits sum.splits)

lemma accumulate_calls: "calls (accumulate e rd st) = calls st"
  by (simp add: accumulate_def Let_def split: option.splits json.splits)

lemma iteration_calls_Inr:
  "iteration rt e av opts st = Inr st' \<Longrightarrow> \<exists>req. calls st' = calls st @ [req]"
  by (auto simp: iteration_def accumulate_calls split: sum.splits dest: fetch_calls_Inr)

lemma iteration_calls_Inl:
  "iteration rt e av opts st = Inl (err, st') \<Longrightarrow> calls st' = calls st \<or> (\<exists>req. calls st' = calls st @ [req])"
  by (auto simp: iteration_def split: sum.splits dest: fetch_calls_Inl)

lemma loop_stop:
  "\<not> (hasMore st \<and> loopCounter st \<le> 500) \<Longrightarrow> callEndpoint_loop rt e av opts st = (None, st)"
  by (subst callEndpoint_loop.simps, erule if_not_P)

lemma loop_throw:
  "hasMore st \<Longrightarrow> loopCounter st \<le> 500 \<Longrightarrow> iteration rt e av opts st = Inl (x, st') \<Longrightarrow>
   callEndpoint_loop rt e av opts st = (Some x, st')"
  by (subst callEndpoint_loop.simps) simp

lemma loop_step:
  "hasMore st \<Longrightarrow> loopCounter st \<le> 500 \<Longrightarrow> iteration rt e av opts st = Inr st' \<Longrightarrow>
   callEndpoint_loop rt e av opts st = callEndpoint_loop rt e av opts st'"
  by (subst callEndpoint_loop.simps) simp

lemma iteration_Inl_loopCounter:
  "iteration rt e av opts st = Inl (x, st') \<Longrightarrow> loopCounter st' = loopCounter st"
  by (auto simp: iteration_def fetch_def Let_def paginate_loopCounter split: sum.splits if_splits)

lemma loop_calls_prefix:
  "prefix (calls st) (calls (snd (callEndpoint_loop rt e av opts st)))"
proof (induction rt e av opts st rule: callEndpoint_loop.induct)
  case (1 rt e av opts st)
  show ?case
  proof (cases "hasMore st \<and> loopCounter st \<le> 500")
    case False
    then show ?thesis by (simp add: loop_stop)
  next
    case True
    show ?thesis
    proof (cases "iteration rt e av opts st")
      case (Inl err)
      then obtain x st' where err: "iteration rt e av opts st = Inl (x, st')" by (cases err) auto
      from iteration_calls_Inl [OF err] True show ?thesis
        by (auto simp: loop_throw [OF _ _ err])
    next
      case (Inr st')
      from "1.IH" [OF True Inr] have "prefix (calls st') (calls (snd (callEndpoint_loop rt e av opts st')))" .
      moreover from iteration_calls_Inr [OF Inr] have "prefix (calls st) (calls st')" by auto
      ultimately show ?thesis using True Inr
        by (auto simp: loop_step [OF _ _ Inr] intro: prefix_order.trans)
    qed
  qed
qed

lemma loop_counts:
  "loopCounter st \<le> 501 \<Longrightarrow> length (calls st) \<le> loopCounter st \<Longrightarrow>
   iterations (callEndpoint_loop rt e av opts st) \<le> 501 \<and>
   length (calls (snd (callEndpoint_loop rt e av opts st))) \<le> iterations (callEndpoint_loop rt e av opts st)"
proof (induction rt e av opts st rule: callEndpoint_loop.induct)
  case (1 rt e av opts st)
  show ?case
  proof (cases "hasMore st \<and> loopCounter st \<le> 500")
    case False
    then show ?thesis using "1.prems" by (simp add: loop_stop iterations_def)
  next
    case True
    show ?thesis
    proof (cases "iteration rt e av opts st")
      case (Inl err)
      then obtain x st' where err: "iteration rt e av opts st = Inl (x, st')" by (cases err) auto
      from iteration_Inl_loopCounter [OF err] iteration_calls_Inl [OF err] True "1.prems" show ?thesis
        by (auto simp: loop_throw [OF _ _ err] iterations_def)
    next
      case (Inr st')
      have a: "loopCounter st' = loopCounter st + 1" using iteration_loopCounter [OF Inr] .
      from iteration_calls_Inr [OF Inr] obtain req where "calls st' = calls st @ [req]" by auto
      with a True "1.prems" have "loopCounter st' \<le> 501" "length (calls st') \<le> loopCounter st'" by auto
      from "1.IH" [OF True Inr this] show ?thesis using True
        by (simp add: loop_step [OF _ _ Inr])
    qed
  qed
qed

subsection \<open>Unresolved variables (C1)\<close>

lemma first_iteration_calls:
  assumes v: "validateVariables e (keys av) = []"
    and b: "body_parses rt e (requestVars e av st)"
    and h: "hasMore st" "loopCounter st \<le> 500"
  shows "length (calls (snd (callEndpoint_loop rt e av opts st))) > length (calls st)"
proof -
  from build_request_parses [OF b] obtain req where req: "build_request rt e opts (requestVars e av st) = Inr req"
    by blast
  show ?thesis
  proof (cases "iteration rt e av opts st")
    case (Inl err)
    then obtain x st' where err: "iteration rt e av opts st = Inl (x, st')" by (cases err) auto
    then have "calls st' = calls st @ [req]"
      using v req
      by (auto simp: iteration_def fetch_def Let_def validateVariables_requestVars paginate_calls
          split: sum.splits if_splits)
    then show ?thesis using h by (simp add: loop_throw [OF _ _ err])
  next
    case (Inr st')
    from iteration_calls_Inr [OF Inr] obtain r where "calls st' = calls st @ [r]" by auto
    moreover have "prefix (calls st') (calls (snd (callEndpoint_loop rt e av opts st')))"
      by (rule loop_calls_prefix)
    ultimately show ?thesis using h
      by (auto simp: loop_step [OF _ _ Inr] dest!: prefix_length_le)
  qed
qed

text \<open>
  Claim C1, as amended. When some placeholder of \<open>urlPath\<close>, of a header value, of a query
  parameter value or of the body is bound neither by payload and credentials nor by one
  of the reserved names \<open>page\<close>, \<open>offset\<close>, \<open>limit\<close>, \<open>callEndpoint\<close> throws the
  unresolved-variables error listing exactly the unbound names, and no HTTP call has been
  made. When every placeholder is bound and the body is absent, empty or parses as JSON
  after interpolation, the run makes an HTTP call.
\<close>

theorem callEndpoint_unresolved_variables:
  "(unbound endpoint (spread payload credentials) \<noteq> {} \<longrightarrow>
      (\<exists>names. callEndpoint rt endpoint payload credentials options = Inl (UnresolvedVariables names)
         \<and> set names = unbound endpoint (spread payload credentials)
         \<and> http_calls rt endpoint payload credentials options = []))
   \<and> (unbound endpoint (spread payload credentials) = {}
        \<and> body_parses rt endpoint (requestVars endpoint (spread payload credentials) initial_state) \<longrightarrow>
      http_calls rt endpoint payload credentials options \<noteq> [])"
proof (intro conjI impI)
  let ?av = "spread payload credentials"
  let ?names = "validateVariables endpoint (keys ?av)"
  assume "unbound endpoint ?av \<noteq> {}"
  then have ne: "?names \<noteq> []"
    using set_validateVariables [of endpoint ?av] by auto
  have init: "hasMore initial_state" "loopCounter initial_state \<le> 500" "calls initial_state = []"
    by (simp_all add: initial_state_def)
  have it: "iteration rt endpoint ?av options initial_state
              = Inl (UnresolvedVariables ?names, snd (paginate endpoint initial_state))"
    by (simp add: iteration_def fetch_invalid [OF ne])
  have r: "run rt endpoint payload credentials options
             = (Some (UnresolvedVariables ?names), snd (paginate endpoint initial_state))"
    unfolding run_def by (rule loop_throw [OF init(1,2) it])
  have "callEndpoint rt endpoint payload credentials options = Inl (UnresolvedVariables ?names)"
    by (simp add: callEndpoint_def finish_def r)
  moreover have "http_calls rt endpoint payload credentials options = []"
    by (simp add: http_calls_def r paginate_calls init)
  ultimately show "\<exists>names. callEndpoint rt endpoint payload credentials options = Inl (UnresolvedVariables names)
         \<and> set names = unbound endpoint ?av
         \<and> http_calls rt endpoint payload credentials options = []"
    using set_validateVariables [of endpoint ?av] by blast
next
  let ?av = "spread payload credentials"
  assume a: "unbound endpoint ?av = {}
        \<and> body_parses rt endpoint (requestVars endpoint ?av initial_state)"
  then have v: "validateVariables endpoint (keys ?av) = []"
    using set_validateVariables [of endpoint ?av] by auto
  have init: "hasMore initial_state" "loopCounter initial_state \<le> 500"
    by (simp_all add: initial_state_def)
  from a have b: "body_parses rt endpoint (requestVars endpoint ?av initial_state)" by simp
  from first_iteration_calls [OF v b init, of options]
  have "length (calls (snd (callEndpoint_loop rt endpoint ?av options initial_state))) > 0"
    by auto
  then show "http_calls rt endpoint payload credentials options \<noteq> []"
    by (auto simp: http_calls_def run_def)
qed


lemma users_endpoint_token: "validateVariables users_endpoint (keys (spread [(''id'', JNum 7)] [(''token'', JStr ''x'')])) = [''apikey'']"
  by code_simp

lemma users_endpoint_apikey: "validateVariables users_endpoint (keys (spread [(''id'', JNum 7)] [(''apikey'', JStr ''x'')])) = []"
  by code_simp

lemma users_endpoint_body: "body_parses (runtime_with no_pages) users_endpoint rv"
  by (simp add: body_parses_def users_endpoint_def)

theorem callEndpoint_unresolved_variables_witness:
  "unbound users_endpoint (spread [(''id'', JNum 7)] [(''token'', JStr ''x'')]) \<noteq> {}
   \<and> (\<exists>names. callEndpoint (runtime_with no_pages) users_endpoint [(''id'', JNum 7)] [(''token'', JStr ''x'')] None
                  = Inl (UnresolvedVariables names)
         \<and> set names = unbound users_endpoint (spread [(''id'', JNum 7)] [(''token'', JStr ''x'')])
         \<and> http_calls (runtime_with no_pages) users_endpoint [(''id'', JNum 7)] [(''token'', JStr ''x'')] None = [])
   \<and> unbound users_endpoint (spread [(''id'', JNum 7)] [(''apikey'', JStr ''x'')]) = {}
   \<and> body_parses (runtime_with no_pages) users_endpoint
        (requestVars users_endpoint (spread [(''id'', JNum 7)] [(''apikey'', JStr ''x'')]) initial_state)
   \<and> http_calls (runtime_with no_pages) users_endpoint [(''id'', JNum 7)] [(''apikey'', JStr ''x'')] None \<noteq> []"
proof -
  have a: "unbound users_endpoint (spread [(''id'', JNum 7)] [(''token'', JStr ''x'')]) \<noteq> {}"
    using users_endpoint_token by (simp add: set_validateVariables [symmetric])
  have b: "unbound users_endpoint (spread [(''id'', JNum 7)] [(''apikey'', JStr ''x'')]) = {}"
    using users_endpoint_apikey by (simp add: set_validateVariables [symmetric])
  show ?thesis
    using a b users_endpoint_body
      callEndpoint_unresolved_variables [of users_endpoint "[(''id'', JNum 7)]" "[(''token'', JStr ''x'')]"
        "runtime_with no_pages" None]
      callEndpoint_unresolved_variables [of users_endpoint "[(''id'', JNum 7)]" "[(''apikey'', JStr ''x'')]"
        "runtime_with no_pages" None]
    by blast
qed

lemma form_endpoint_bound:
  "validateVariables form_endpoint (keys (spread [(''id'', JNum 7)] [])) = []"
  by code_simp

lemma form_endpoint_run:
  "run (runtime_with no_pages) form_endpoint [(''id'', JNum 7)] [] None
   = (Some SyntaxError, initial_state\<lparr>hasMore := False\<rparr>)"
  by code_simp

text \<open>
  Claim C1 as stated fails: the only placeholder of \<open>form_endpoint\<close>, \<open>id\<close>, is bound,
  yet its body \<open>name=Bob\<close> is not JSON, \<^verbatim>\<open>JSON.parse\<close> throws and no HTTP call is made.
\<close>

theorem callEndpoint_bound_without_call:
  "placeholders form_endpoint = {''id''}
   \<and> unbound form_endpoint (spread [(''id'', JNum 7)] []) = {}
   \<and> callEndpoint (runtime_with no_pages) form_endpoint [(''id'', JNum 7)] [] None = Inl SyntaxError
   \<and> http_calls (runtime_with no_pages) form_endpoint [(''id'', JNum 7)] [] None = []"
proof -
  have "findTemplateVars ''/users/{id}'' = [''id'']" "findTemplateVars ''name=Bob'' = []"
    by code_simp+
  then have "placeholders form_endpoint = {''id''}"
    by (simp add: placeholders_def names_in_def form_endpoint_def)
  with form_endpoint_bound form_endpoint_run show ?thesis
    by (simp add: set_validateVariables [symmetric] callEndpoint_def finish_def http_calls_def
        initial_state_def)
qed

subsection \<open>No pagination (C6)\<close>

lemma accumulate_hasMore: "hasMore (accumulate e rd st) \<Longrightarrow> hasMore st"
  by (auto simp: accumulate_def Let_def split: option.splits json.splits if_splits)

lemma paginate_no_pagination: "no_pagination e \<Longrightarrow> \<not> hasMore (snd (paginate e st))"
  by (auto simp: no_pagination_def paginate_def split: option.splits)

lemma fetch_no_pagination:
  "no_pagination e \<Longrightarrow> fetch rt e av opts st = Inr (rd, st') \<Longrightarrow> \<not> hasMore st'"
  by (auto simp: fetch_def Let_def split: if_splits sum.splits dest: paginate_no_pagination)

lemma iteration_no_pagination:
  "no_pagination e \<Longrightarrow> iteration rt e av opts st = Inr st' \<Longrightarrow> \<not> hasMore st'"
proof -
  assume np: "no_pagination e" and it: "iteration rt e av opts st = Inr st'"
  then obtain rd st1 where f: "fetch rt e av opts st = Inr (rd, st1)" and s: "st' = accumulate e rd st1"
    by (auto simp: iteration_def split: sum.splits)
  from fetch_no_pagination [OF np f] have "\<not> hasMore st1" .
  with s accumulate_hasMore [of e rd st1] show "\<not> hasMore st'" by blast
qed

lemma run_counts:
  "iterations (run rt e p c opts) \<le> 501 \<and>
   length (http_calls rt e p c opts) \<le> iterations (run rt e p c opts)"
  unfolding run_def http_calls_def
  by (rule loop_counts) (simp_all add: initial_state_def)

text \<open>
  Claim C6, as amended. Without pagination, or with pagination of type \<open>DISABLED\<close>, the
  loop body of \<open>callEndpoint\<close> is entered exactly once and at most one HTTP call is made:
  exactly one when every placeholder is bound and the body is absent, empty or parses as
  JSON, so that the iteration reaches the call.
\<close>

theorem callEndpoint_without_pagination:
  assumes "no_pagination endpoint"
  shows "iterations (run rt endpoint payload credentials options) = 1
    \<and> length (http_calls rt endpoint payload credentials options) \<le> 1
    \<and> (unbound endpoint (spread payload credentials) = {}
         \<and> body_parses rt endpoint (requestVars endpoint (spread payload credentials) initial_state)
        \<longrightarrow> length (http_calls rt endpoint payload credentials options) = 1)"
proof -
  let ?av = "spread payload credentials"
  have init: "hasMore initial_state" "loopCounter initial_state \<le> 500" "loopCounter initial_state = 0"
    by (simp_all add: initial_state_def)
  have one: "iterations (run rt endpoint payload credentials options) = 1"
  proof (cases "iteration rt endpoint ?av options initial_state")
    case (Inl err)
    then obtain x st' where err: "iteration rt endpoint ?av options initial_state = Inl (x, st')"
      by (cases err) auto
    from iteration_Inl_loopCounter [OF err] init show ?thesis
      by (simp add: run_def loop_throw [OF init(1,2) err] iterations_def)
  next
    case (Inr st')
    from iteration_no_pagination [OF assms Inr] have "\<not> (hasMore st' \<and> loopCounter st' \<le> 500)"
      by simp
    then have "callEndpoint_loop rt endpoint ?av options st' = (None, st')"
      by (rule loop_stop)
    with iteration_loopCounter [OF Inr] init show ?thesis
      by (simp add: run_def loop_step [OF init(1,2) Inr] iterations_def)
  qed
  moreover from one run_counts [of rt endpoint payload credentials options]
  have le: "length (http_calls rt endpoint payload credentials options) \<le> 1" by simp
  moreover have "length (http_calls rt endpoint payload credentials options) = 1"
    if "unbound endpoint ?av = {} \<and> body_parses rt endpoint (requestVars endpoint ?av initial_state)"
  proof -
    from that have v: "validateVariables endpoint (keys ?av) = []"
      using set_validateVariables [of endpoint ?av] by auto
    from that have b: "body_parses rt endpoint (requestVars endpoint ?av initial_state)" by simp
    from first_iteration_calls [OF v b init(1,2), of options]
    have "http_calls rt endpoint payload credentials options \<noteq> []"
      by (auto simp: http_calls_def run_def)
    with le show ?thesis by (cases "http_calls rt endpoint payload credentials options") auto
  qed
  ultimately show ?thesis by blast
qed


theorem callEndpoint_without_pagination_witness:
  "no_pagination users_endpoint
   \<and> iterations (run (runtime_with no_pages) users_endpoint [(''id'', JNum 7)] [(''apikey'', JStr ''x'')] None) = 1
   \<and> length (http_calls (runtime_with no_pages) users_endpoint [(''id'', JNum 7)] [(''apikey'', JStr ''x'')] None) = 1"
proof -
  have np: "no_pagination users_endpoint"
    by (simp add: no_pagination_def users_endpoint_def)
  have b: "unbound users_endpoint (spread [(''id'', JNum 7)] [(''apikey'', JStr ''x'')]) = {}"
    using users_endpoint_apikey by (simp add: set_validateVariables [symmetric])
  show ?thesis
    using np b users_endpoint_body
      callEndpoint_without_pagination [OF np, of "runtime_with no_pages" "[(''id'', JNum 7)]"
        "[(''apikey'', JStr ''x'')]" None]
    by blast
qed

lemma disabled_endpoint_run:
  "run (runtime_with no_pages) disabled_endpoint [(''id'', JNum 7)] [(''token'', JStr ''x'')] None
   = (Some (UnresolvedVariables [''apikey'']), initial_state\<lparr>hasMore := False\<rparr>)"
  by code_simp

text \<open>
  Claim C6 as stated fails: with pagination \<open>DISABLED\<close> and the placeholder \<open>apikey\<close>
  unbound, the only iteration throws before the HTTP call, and the run makes none.
\<close>

theorem callEndpoint_disabled_without_call:
  "no_pagination disabled_endpoint
   \<and> length (http_calls (runtime_with no_pages) disabled_endpoint [(''id'', JNum 7)] [(''token'', JStr ''x'')] None) = 0"
  using disabled_endpoint_run
  by (simp add: no_pagination_def disabled_endpoint_def http_calls_def initial_state_def)

subsection \<open>The iteration ceiling (C3)\<close>

lemma digit_char_not_comma: "d < 10 \<Longrightarrow> digit_char d \<noteq> CHR '',''"
proof
  assume d: "d < 10" and "digit_char d = CHR '',''"
  then have "(of_char (char_of (48 + d)) :: nat) = of_char (CHR '','')"
    by (simp add: digit_char_def)
  with d show False by simp
qed

lemma comma_notin_show_nat: "CHR '','' \<notin> set (show_nat n)"
proof (induction n rule: show_nat.induct)
  case (1 n)
  show ?case
  proof (cases "n < 10")
    case True
    then show ?thesis using digit_char_not_comma [of n] by (subst show_nat.simps) auto
  next
    case False
    with "1.IH" digit_char_not_comma [of "n mod 10"] show ?thesis
      by (subst show_nat.simps) auto
  qed
qed

lemma comma_in_intersperse: "2 \<le> length xs \<Longrightarrow> CHR '','' \<in> set (intersperse '','' xs)"
proof -
  assume "2 \<le> length xs"
  then obtain x y ys where "xs = x # y # ys"
    by (cases xs; cases "tl xs") auto
  then show ?thesis by simp
qed

lemma stringify_counting:
  "stringify (JArr [JNum (int k)]) \<noteq> stringify (JArr (map (\<lambda>i. JNum (int i)) [0..<k]))"
proof -
  consider "k = 0" | "k = 1" | "2 \<le> k" by linarith
  then show ?thesis
  proof cases
    case 1
    then show ?thesis by (simp add: show_int_def show_nat.simps digit_char_def)
  next
    case 2
    then show ?thesis by (simp add: show_int_def show_nat.simps digit_char_def)
  next
    case 3
    have "CHR '','' \<notin> set (stringify (JArr [JNum (int k)]))"
      using comma_notin_show_nat [of k] by (simp add: show_int_def)
    moreover have "CHR '','' \<in> set (stringify (JArr (map (\<lambda>i. JNum (int i)) [0..<k])))"
      using 3 comma_in_intersperse [of "map stringify (map (\<lambda>i. JNum (int i)) [0..<k])"] by simp
    ultimately show ?thesis by metis
  qed
qed


lemma runtime_with_callAxios: "callAxios (runtime_with pages) = serve pages"
  by (simp add: runtime_with_def)

lemma paged_endpoint_valid: "validateVariables paged_endpoint (keys []) = []"
  by code_simp

lemma counting_fetch:
  assumes "length (calls st) = k"
  shows "\<exists>st1. fetch (runtime_with counting_pages) paged_endpoint [] None st
           = Inr (Some (JArr [JNum (int k)]), st1)
         \<and> hasMore st1 = hasMore st \<and> allResults st1 = allResults st
         \<and> loopCounter st1 = loopCounter st \<and> length (calls st1) = Suc k"
proof -
  have v: "validateVariables paged_endpoint (keys (requestVars paged_endpoint [] st)) = []"
    by (simp add: validateVariables_requestVars paged_endpoint_valid)
  have p: "pagination paged_endpoint = Some \<lparr>ptype = PAGE_BASED, pageSize = Some 1\<rparr>"
    "body paged_endpoint = None" "dataPath paged_endpoint = None"
    by (simp_all add: paged_endpoint_def)
  obtain req where req: "build_request (runtime_with counting_pages) paged_endpoint None
      (requestVars paged_endpoint [] st) = Inr req"
    using build_request_parses [of "runtime_with counting_pages" paged_endpoint] p
    by (auto simp: body_parses_def)
  have nf: "\<not> call_failed \<lparr>status = 200, data = Some (JArr [JNum (int k)]), resp_headers = []\<rparr>"
    by (simp add: call_failed_def data_error_def array_index_def is_digit_def)
  show ?thesis
    using assms
    by (simp add: fetch_def Let_def v req runtime_with_callAxios serve_def counting_pages_def nf
        is_html_def extractData_def p paginate_def paginate_calls)
qed

lemma counting_iteration:
  assumes "length (calls st) = k" "allResults st = map (\<lambda>i. JNum (int i)) [0..<k]"
  shows "\<exists>st'. iteration (runtime_with counting_pages) paged_endpoint [] None st = Inr st'
         \<and> hasMore st' = hasMore st \<and> allResults st' = map (\<lambda>i. JNum (int i)) [0..<Suc k]
         \<and> loopCounter st' = loopCounter st + 1 \<and> length (calls st') = Suc k"
proof -
  from counting_fetch [OF assms(1)] obtain st1 where
    f: "fetch (runtime_with counting_pages) paged_endpoint [] None st = Inr (Some (JArr [JNum (int k)]), st1)"
    and s: "hasMore st1 = hasMore st" "allResults st1 = allResults st"
      "loopCounter st1 = loopCounter st" "length (calls st1) = Suc k"
    by blast
  have sp: "\<not> short_page paged_endpoint [JNum (int k)]"
    by (simp add: short_page_def paged_endpoint_def)
  have ne: "stringify (JArr [JNum (int k)]) \<noteq> stringify (JArr (allResults st1))"
    using stringify_counting [of k] s(2) assms(2) by simp
  show ?thesis
    using s assms(2) ne sp
    by (simp add: iteration_def f accumulate_def Let_def)
qed

lemma counting_loop:
  assumes "hasMore st" "loopCounter st = k" "k \<le> 501" "length (calls st) = k"
    "allResults st = map (\<lambda>i. JNum (int i)) [0..<k]"
  shows "\<exists>st'. callEndpoint_loop (runtime_with counting_pages) paged_endpoint [] None st = (None, st')
          \<and> loopCounter st' = 501 \<and> length (calls st') = 501"
  using assms
proof (induction "501 - k" arbitrary: st k)
  case 0
  then have "k = 501" by simp
  with 0 show ?case by (simp add: loop_stop)
next
  case (Suc n)
  then have k: "k \<le> 500" by simp
  from counting_iteration [OF Suc.prems(4,5)] obtain st' where
    it: "iteration (runtime_with counting_pages) paged_endpoint [] None st = Inr st'"
    and s: "hasMore st' = hasMore st" "allResults st' = map (\<lambda>i. JNum (int i)) [0..<Suc k]"
      "loopCounter st' = loopCounter st + 1" "length (calls st') = Suc k"
    by blast
  have "n = 501 - Suc k" using Suc.hyps(2) by simp
  from Suc.hyps(1) [OF this, of st'] s Suc.prems k
  obtain st'' where "callEndpoint_loop (runtime_with counting_pages) paged_endpoint [] None st' = (None, st'')"
      "loopCounter st'' = 501" "length (calls st'') = 501"
    by auto
  moreover have "callEndpoint_loop (runtime_with counting_pages) paged_endpoint [] None st
    = callEndpoint_loop (runtime_with counting_pages) paged_endpoint [] None st'"
    using Suc.prems(1,2) k by (intro loop_step [OF _ _ it]) simp_all
  ultimately show ?case by simp
qed

text \<open>
  Claim C3 against the code: the guard \<^verbatim>\<open>loopCounter <= 500\<close> admits the counter values
  0 to 500. Against a server whose \<open>n\<close>-th answer is the one-element page \<open>[n]\<close>, with
  page size 1, the loop body runs 501 times and 501 HTTP calls are made. By \<open>run_counts\<close>
  no run exceeds 501.
\<close>

theorem callEndpoint_501_iterations:
  "iterations (run (runtime_with counting_pages) paged_endpoint [] [] None) = 501
   \<and> length (http_calls (runtime_with counting_pages) paged_endpoint [] [] None) = 501"
proof -
  have "\<exists>st'. callEndpoint_loop (runtime_with counting_pages) paged_endpoint [] None initial_state = (None, st')
          \<and> loopCounter st' = 501 \<and> length (calls st') = 501"
    by (rule counting_loop [of initial_state 0]) (simp_all add: initial_state_def)
  then show ?thesis
    by (auto simp: run_def http_calls_def iterations_def spread_def)
qed

subsection \<open>A page identical to the accumulated results (C7)\<close>

lemma paginate_allResults: "allResults (snd (paginate e st)) = allResults st"
  by (simp add: paginate_def split: option.splits)

lemma fetch_allResults:
  "fetch rt e av opts st = Inr (rd, st1) \<Longrightarrow> allResults st1 = allResults st"
  by (auto simp: fetch_def Let_def paginate_allResults split: if_splits sum.splits)

lemma map_of_spread_other:
  "k \<notin> set (keys b) \<Longrightarrow> map_of (spread a b) k = map_of a k"
  unfolding spread_def
proof (induction b arbitrary: a)
  case Nil
  then show ?case by simp
next
  case (Cons kv b)
  then have "k \<noteq> fst kv" "k \<notin> set (keys b)" by (auto simp: keys_def)
  with Cons.IH [of "AList.update (fst kv) (snd kv) a"] show ?case
    by (simp add: update_conv)
qed

text \<open>
  Claim C7, as amended. At any iteration of the loop, when the page fetched (after
  the navigation of \<open>dataPath\<close>) is an array whose \<^verbatim>\<open>JSON.stringify\<close> text equals that of
  the accumulated results (as it is when a second page repeats the first), the loop ends
  with that iteration, the page is not appended, and \<open>callEndpoint\<close> returns the data of
  the results accumulated before.
\<close>

theorem identical_to_accumulated_stops:
  assumes "hasMore st" "loopCounter st \<le> 500"
    and "fetch rt endpoint allVariables options st = Inr (Some (JArr xs), st1)"
    and "stringify (JArr xs) = stringify (JArr (allResults st))"
  shows "fst (callEndpoint_loop rt endpoint allVariables options st) = None
    \<and> allResults (snd (callEndpoint_loop rt endpoint allVariables options st)) = allResults st
    \<and> loopCounter (snd (callEndpoint_loop rt endpoint allVariables options st)) = loopCounter st + 1
    \<and> calls (snd (callEndpoint_loop rt endpoint allVariables options st)) = calls st1
    \<and> finish (callEndpoint_loop rt endpoint allVariables options st) = Inr (returned_data (allResults st))"
proof -
  let ?st' = "accumulate endpoint (Some (JArr xs)) st1"
  have a: "allResults st1 = allResults st" by (rule fetch_allResults [OF assms(3)])
  have l: "loopCounter st1 = loopCounter st" by (rule fetch_loopCounter [OF assms(3)])
  have it: "iteration rt endpoint allVariables options st = Inr ?st'"
    by (simp add: iteration_def assms(3))
  have s: "\<not> hasMore ?st'" "allResults ?st' = allResults st" "loopCounter ?st' = loopCounter st + 1"
    "calls ?st' = calls st1"
    using assms(4) a l by (simp_all add: accumulate_def Let_def)
  have "callEndpoint_loop rt endpoint allVariables options st = (None, ?st')"
    using loop_step [OF assms(1,2) it] loop_stop [of ?st' rt endpoint allVariables options] s(1)
    by simp
  with s show ?thesis by (simp add: finish_def)
qed


lemma same_pages_first:
  "iteration (runtime_with same_pages) paged_endpoint [] None initial_state = Inr after_first_page"
  by code_simp

lemma same_pages_second:
  "fetch (runtime_with same_pages) paged_endpoint [] None after_first_page
   = Inr (Some (JArr [JNum 1, JNum 2]),
          after_first_page\<lparr>page := 3, calls := [items_request ''1'', items_request ''2'']\<rparr>)"
  by code_simp

theorem identical_to_accumulated_stops_witness:
  "iteration (runtime_with same_pages) paged_endpoint [] None initial_state = Inr after_first_page
   \<and> fst (callEndpoint_loop (runtime_with same_pages) paged_endpoint [] None after_first_page) = None
   \<and> allResults (snd (callEndpoint_loop (runtime_with same_pages) paged_endpoint [] None after_first_page))
       = [JNum 1, JNum 2]
   \<and> loopCounter (snd (callEndpoint_loop (runtime_with same_pages) paged_endpoint [] None after_first_page)) = 2
   \<and> finish (callEndpoint_loop (runtime_with same_pages) paged_endpoint [] None after_first_page)
       = Inr (JArr [JNum 1, JNum 2])"
proof -
  have h: "hasMore after_first_page" "loopCounter after_first_page \<le> 500"
    by (simp_all add: after_first_page_def)
  have s: "stringify (JArr [JNum 1, JNum 2]) = stringify (JArr (allResults after_first_page))"
    by (simp add: after_first_page_def)
  show ?thesis
    using identical_to_accumulated_stops [OF h same_pages_second s] same_pages_first
    by (simp add: after_first_page_def returned_data_def)
qed

lemma repeating_pages_run:
  "finish (run (runtime_with repeating_pages) paged_endpoint [] [] None)
     = Inr (JArr [JNum 1, JNum 2, JNum 2])
   \<and> length (calls (snd (run (runtime_with repeating_pages) paged_endpoint [] [] None))) = 4"
  by code_simp

text \<open>
  Claim C7 as stated fails: the comparison is with everything accumulated, not with the
  previous page. The third page \<open>[2]\<close> repeats the second, the results so far are
  \<open>[1, 2]\<close>, so the page is appended again and a fourth call is made.
\<close>

theorem identical_consecutive_pages_appended:
  "repeating_pages 2 = repeating_pages 1
   \<and> callEndpoint (runtime_with repeating_pages) paged_endpoint [] [] None
       = Inr (JArr [JNum 1, JNum 2, JNum 2])
   \<and> length (http_calls (runtime_with repeating_pages) paged_endpoint [] [] None) = 4"
  using repeating_pages_run by (simp add: callEndpoint_def http_calls_def repeating_pages_def)

subsection \<open>The default page size (C9)\<close>

lemma fetch_offset:
  "fetch rt e av opts st = Inr (rd, st1) \<Longrightarrow> offset st1 = offset (snd (paginate e st))"
  by (auto simp: fetch_def Let_def split: if_splits sum.splits)

lemma accumulate_offset: "offset (accumulate e rd st) = offset st"
  by (simp add: accumulate_def Let_def split: option.splits json.splits)

lemma iteration_offset:
  "iteration rt e av opts st = Inr st' \<Longrightarrow> offset st' = offset (snd (paginate e st))"
  by (auto simp: iteration_def accumulate_offset split: sum.splits dest: fetch_offset)

lemma paginate_offset_50:
  "unset_page_size e \<Longrightarrow> offset_based e \<Longrightarrow> offset (snd (paginate e st)) = offset st + 50"
  by (auto simp: unset_page_size_def offset_based_def paginate_def limit_of_def split: option.splits)

lemma iteration_Inl_offset:
  "iteration rt e av opts st = Inl (x, st') \<Longrightarrow> offset st' = offset (snd (paginate e st))"
  by (auto simp: iteration_def fetch_def Let_def split: sum.splits if_splits)

lemma loop_offset_50:
  "unset_page_size e \<Longrightarrow> offset_based e \<Longrightarrow> offset st = 50 * int (loopCounter st) \<Longrightarrow>
    offset (snd (callEndpoint_loop rt e av opts st))
      = 50 * int (iterations (callEndpoint_loop rt e av opts st))"
proof (induction rt e av opts st rule: callEndpoint_loop.induct)
  case (1 rt e av opts st)
  note pg = paginate_offset_50 [OF "1.prems"(1,2), of st]
  show ?case
  proof (cases "hasMore st \<and> loopCounter st \<le> 500")
    case False
    then show ?thesis using "1.prems" by (simp add: loop_stop iterations_def)
  next
    case True
    show ?thesis
    proof (cases "iteration rt e av opts st")
      case (Inl err)
      then obtain x st' where err: "iteration rt e av opts st = Inl (x, st')" by (cases err) auto
      from iteration_Inl_loopCounter [OF err] iteration_Inl_offset [OF err] pg "1.prems"(3)
      have "offset st' = 50 * int (loopCounter st' + 1)" by simp
      with True show ?thesis by (simp add: loop_throw [OF _ _ err] iterations_def)
    next
      case (Inr st')
      from iteration_loopCounter [OF Inr] iteration_offset [OF Inr] pg "1.prems"(3)
      have "offset st' = 50 * int (loopCounter st')" by simp
      from "1.IH" [OF True Inr "1.prems"(1,2) this] show ?thesis using True
        by (simp add: loop_step [OF _ _ Inr])
    qed
  qed
qed

text \<open>
  Claim C9, as amended. With pagination \<open>PAGE_BASED\<close> or \<open>OFFSET_BASED\<close> and no page
  size, the variables of every iteration (at every state \<open>st\<close> of the loop) bind
  \<open>limit\<close> to 50 unless payload or credentials define a variable \<open>limit\<close>. In the
  \<open>OFFSET_BASED\<close> case, whatever payload and credentials define, the offset starts at
  0, grows by 50 with every iteration, and at the end of the loop is 50 times the number
  of iterations; it is bound to \<open>offset\<close> unless payload or credentials define that
  name.
\<close>

theorem default_limit_50:
  assumes "unset_page_size endpoint"
  shows "(''limit'' \<notin> set (keys allVariables) \<longrightarrow>
           map_of (requestVars endpoint allVariables st) ''limit'' = Some (JNum 50))
    \<and> (offset_based endpoint \<longrightarrow>
         offset initial_state = 0
         \<and> (''offset'' \<notin> set (keys allVariables) \<longrightarrow>
              map_of (requestVars endpoint allVariables st) ''offset'' = Some (JNum (offset st)))
         \<and> offset (snd (paginate endpoint st)) = offset st + 50
         \<and> (\<forall>st'. iteration rt endpoint allVariables options st = Inr st' \<longrightarrow>
              offset st' = offset st + 50)
         \<and> offset (snd (callEndpoint_loop rt endpoint allVariables options initial_state))
             = 50 * int (iterations (callEndpoint_loop rt endpoint allVariables options initial_state)))"
proof -
  from assms(1) obtain pg where pg: "pagination endpoint = Some pg"
      "ptype pg = PAGE_BASED \<or> ptype pg = OFFSET_BASED" "pageSize pg = None"
    by (auto simp: unset_page_size_def split: option.splits)
  have lim: "limit_of pg = 50" using pg(3) by (simp add: limit_of_def)
  have a: "map_of (requestVars endpoint allVariables st) ''limit'' = Some (JNum 50)"
    if "''limit'' \<notin> set (keys allVariables)"
  proof -
    have "map_of (fst (paginate endpoint st)) ''limit'' = Some (JNum 50)"
      using pg lim by (auto simp: paginate_def)
    then show ?thesis by (simp add: requestVars_def map_of_spread_other [OF that])
  qed
  have b: "map_of (requestVars endpoint allVariables st) ''offset'' = Some (JNum (offset st))"
    if "offset_based endpoint" "''offset'' \<notin> set (keys allVariables)"
  proof -
    have "map_of (fst (paginate endpoint st)) ''offset'' = Some (JNum (offset st))"
      using pg that(1) by (auto simp: paginate_def offset_based_def)
    then show ?thesis by (simp add: requestVars_def map_of_spread_other [OF that(2)])
  qed
  have p: "offset (snd (paginate endpoint st)) = offset st + 50" if "offset_based endpoint"
    by (rule paginate_offset_50 [OF assms that])
  have c: "offset st' = offset st + 50"
    if "offset_based endpoint" "iteration rt endpoint allVariables options st = Inr st'" for st'
    using iteration_offset [OF that(2)] p [OF that(1)] by simp
  have d: "offset (snd (callEndpoint_loop rt endpoint allVariables options initial_state))
             = 50 * int (iterations (callEndpoint_loop rt endpoint allVariables options initial_state))"
    if "offset_based endpoint"
    by (rule loop_offset_50 [OF assms(1) that]) (simp add: initial_state_def)
  have z: "offset initial_state = 0" by (simp add: initial_state_def)
  from a b p c d z show ?thesis by blast
qed

lemma offset_endpoint_run:
  "offset (snd (callEndpoint_loop (runtime_with two_pages_then_done) offset_endpoint [] None initial_state)) = 150
   \<and> map req_params (calls (snd (callEndpoint_loop (runtime_with two_pages_then_done) offset_endpoint [] None initial_state)))
      = [[(''offset'', ''0''), (''limit'', ''50'')],
         [(''offset'', ''50''), (''limit'', ''50'')],
         [(''offset'', ''100''), (''limit'', ''50'')]]"
  by code_simp

lemma offset_endpoint_limit_run:
  "offset (snd (callEndpoint_loop (runtime_with two_pages_then_done) offset_endpoint
     [(''limit'', JNum 10)] None initial_state)) = 150
   \<and> map req_params (calls (snd (callEndpoint_loop (runtime_with two_pages_then_done) offset_endpoint
     [(''limit'', JNum 10)] None initial_state)))
      = [[(''offset'', ''0''), (''limit'', ''10'')],
         [(''offset'', ''50''), (''limit'', ''10'')],
         [(''offset'', ''100''), (''limit'', ''10'')]]"
  by code_simp

theorem default_limit_50_witness:
  "unset_page_size offset_endpoint \<and> offset_based offset_endpoint
   \<and> map_of (requestVars offset_endpoint [] initial_state) ''limit'' = Some (JNum 50)
   \<and> map_of (requestVars offset_endpoint [] initial_state) ''offset'' = Some (JNum 0)
   \<and> offset (snd (paginate offset_endpoint initial_state)) = 50
   \<and> iterations (callEndpoint_loop (runtime_with two_pages_then_done) offset_endpoint [] None initial_state) = 3
   \<and> map req_params (calls (snd (callEndpoint_loop (runtime_with two_pages_then_done) offset_endpoint [] None initial_state)))
      = [[(''offset'', ''0''), (''limit'', ''50'')],
         [(''offset'', ''50''), (''limit'', ''50'')],
         [(''offset'', ''100''), (''limit'', ''50'')]]
   \<and> iterations (callEndpoint_loop (runtime_with two_pages_then_done) offset_endpoint
        [(''limit'', JNum 10)] None initial_state) = 3
   \<and> map req_params (calls (snd (callEndpoint_loop (runtime_with two_pages_then_done) offset_endpoint
        [(''limit'', JNum 10)] None initial_state)))
      = [[(''offset'', ''0''), (''limit'', ''10'')],
         [(''offset'', ''50''), (''limit'', ''10'')],
         [(''offset'', ''100''), (''limit'', ''10'')]]"
proof -
  have u: "unset_page_size offset_endpoint" and o: "offset_based offset_endpoint"
    by (simp_all add: unset_page_size_def offset_based_def offset_endpoint_def)
  have k: "''limit'' \<notin> set (keys [])" "''offset'' \<notin> set (keys [])"
    by (simp_all add: keys_def)
  note free = default_limit_50 [OF u, of "[]" initial_state "runtime_with two_pages_then_done" None]
  note bound = default_limit_50 [OF u, of "[(''limit'', JNum 10)]" initial_state
      "runtime_with two_pages_then_done" None]
  from free o k
  have 1: "map_of (requestVars offset_endpoint [] initial_state) ''limit'' = Some (JNum 50)"
    and 2: "map_of (requestVars offset_endpoint [] initial_state) ''offset''
        = Some (JNum (offset initial_state))"
    and 3: "offset (snd (paginate offset_endpoint initial_state)) = offset initial_state + 50"
    and 4: "offset (snd (callEndpoint_loop (runtime_with two_pages_then_done) offset_endpoint [] None
          initial_state))
        = 50 * int (iterations (callEndpoint_loop (runtime_with two_pages_then_done) offset_endpoint []
          None initial_state))"
    by blast+
  from bound o
  have 5: "offset (snd (callEndpoint_loop (runtime_with two_pages_then_done) offset_endpoint
          [(''limit'', JNum 10)] None initial_state))
        = 50 * int (iterations (callEndpoint_loop (runtime_with two_pages_then_done) offset_endpoint
          [(''limit'', JNum 10)] None initial_state))"
    by blast
  have z: "offset initial_state = 0" by (simp add: initial_state_def)
  from 4 offset_endpoint_run
  have 6: "iterations (callEndpoint_loop (runtime_with two_pages_then_done) offset_endpoint [] None
      initial_state) = 3"
    by simp
  from 5 offset_endpoint_limit_run
  have 7: "iterations (callEndpoint_loop (runtime_with two_pages_then_done) offset_endpoint
      [(''limit'', JNum 10)] None initial_state) = 3"
    by simp
  from u o 1 2 3 z 6 7 offset_endpoint_run offset_endpoint_limit_run show ?thesis by simp
qed

lemma limit_override_run:
  "map req_params (calls (snd (run (runtime_with two_pages_then_done) offset_endpoint [(''limit'', JNum 10)] [] None)))
      = [[(''offset'', ''0''), (''limit'', ''10'')],
         [(''offset'', ''50''), (''limit'', ''10'')],
         [(''offset'', ''100''), (''limit'', ''10'')]]"
  by code_simp

lemma limit_override_vars:
  "map_of (requestVars offset_endpoint (spread [(''limit'', JNum 10)] []) initial_state) ''limit''
     = Some (JNum 10)"
  by code_simp

text \<open>
  Claim C9 as stated fails: \<^verbatim>\<open>{ ...paginationVars, ...allVariables }\<close> lets a payload
  variable named \<open>limit\<close> replace the default, and every request carries 10, not 50.
\<close>

theorem payload_limit_overrides_default:
  "unset_page_size offset_endpoint
   \<and> map_of (requestVars offset_endpoint (spread [(''limit'', JNum 10)] []) initial_state) ''limit''
       = Some (JNum 10)
   \<and> map req_params (http_calls (runtime_with two_pages_then_done) offset_endpoint [(''limit'', JNum 10)] [] None)
      = [[(''offset'', ''0''), (''limit'', ''10'')],
         [(''offset'', ''50''), (''limit'', ''10'')],
         [(''offset'', ''100''), (''limit'', ''10'')]]"
  using limit_override_run limit_override_vars
  by (simp add: http_calls_def unset_page_size_def offset_endpoint_def)

subsection \<open>A response that is not an array (C10)\<close>

text \<open>
  Claim C10, as amended. At any iteration of the loop with accumulated results, when the
  extracted response is not an array, the loop ends with that iteration, the value is
  not added to the results, and the data \<open>callEndpoint\<close> returns is computed from the
  results accumulated before: their array, or their sole element when there is exactly
  one.
\<close>

theorem non_array_after_results_stops:
  assumes "hasMore st" "loopCounter st \<le> 500" "allResults st \<noteq> []"
    and "fetch rt endpoint allVariables options st = Inr (responseData, st1)"
    and "\<not> isArray responseData"
  shows "callEndpoint_loop rt endpoint allVariables options st
      = (None, st1\<lparr>hasMore := False, loopCounter := loopCounter st + 1\<rparr>)
    \<and> allResults (snd (callEndpoint_loop rt endpoint allVariables options st)) = allResults st
    \<and> finish (callEndpoint_loop rt endpoint allVariables options st)
        = Inr (case allResults st of [x] \<Rightarrow> x | _ \<Rightarrow> JArr (allResults st))"
proof -
  let ?st' = "st1\<lparr>hasMore := False, loopCounter := loopCounter st + 1\<rparr>"
  have a: "allResults st1 = allResults st" by (rule fetch_allResults [OF assms(4)])
  have l: "loopCounter st1 = loopCounter st" by (rule fetch_loopCounter [OF assms(4)])
  have acc: "accumulate endpoint responseData st1 = ?st'"
  proof (cases responseData)
    case None
    then show ?thesis by (simp add: accumulate_def l)
  next
    case (Some v)
    with assms(3,5) a l show ?thesis
      by (cases v) (simp_all add: accumulate_def)
  qed
  have it: "iteration rt endpoint allVariables options st = Inr ?st'"
    by (simp add: iteration_def assms(4) acc)
  have "callEndpoint_loop rt endpoint allVariables options st = (None, ?st')"
    using loop_step [OF assms(1,2) it] loop_stop [of ?st' rt endpoint allVariables options]
    by simp
  then show ?thesis by (simp add: finish_def returned_data_def a)
qed


lemma two_pages_third_fetch:
  "fetch (runtime_with two_pages_then_done) paged_endpoint [] None after_two_pages
   = Inr (Some (JObj [(''done'', JBool True)]),
          after_two_pages\<lparr>page := 4,
            calls := [items_request ''1'', items_request ''2'', items_request ''3'']\<rparr>)"
  by code_simp

lemma two_pages_reached:
  "callEndpoint_loop (runtime_with two_pages_then_done) paged_endpoint [] None initial_state
   = callEndpoint_loop (runtime_with two_pages_then_done) paged_endpoint [] None after_two_pages"
  by code_simp

theorem non_array_after_results_stops_witness:
  "callEndpoint_loop (runtime_with two_pages_then_done) paged_endpoint [] None initial_state
     = callEndpoint_loop (runtime_with two_pages_then_done) paged_endpoint [] None after_two_pages
   \<and> allResults after_two_pages = [JNum 1, JNum 2]
   \<and> \<not> isArray (Some (JObj [(''done'', JBool True)]))
   \<and> allResults (snd (callEndpoint_loop (runtime_with two_pages_then_done) paged_endpoint [] None
         after_two_pages)) = [JNum 1, JNum 2]
   \<and> finish (callEndpoint_loop (runtime_with two_pages_then_done) paged_endpoint [] None after_two_pages)
       = Inr (JArr [JNum 1, JNum 2])"
proof -
  have h: "hasMore after_two_pages" "loopCounter after_two_pages \<le> 500"
    "allResults after_two_pages \<noteq> []"
    by (simp_all add: after_two_pages_def)
  have n: "\<not> isArray (Some (JObj [(''done'', JBool True)]))" by simp
  have a: "allResults after_two_pages = [JNum 1, JNum 2]"
    by (simp add: after_two_pages_def)
  note stops = non_array_after_results_stops [OF h two_pages_third_fetch n]
  have "allResults (snd (callEndpoint_loop (runtime_with two_pages_then_done) paged_endpoint [] None
         after_two_pages)) = [JNum 1, JNum 2]"
    using stops [THEN conjunct2, THEN conjunct1] a by (rule trans)
  moreover have "finish (callEndpoint_loop (runtime_with two_pages_then_done) paged_endpoint [] None
         after_two_pages) = Inr (JArr [JNum 1, JNum 2])"
    using stops [THEN conjunct2, THEN conjunct2] unfolding a by simp
  ultimately have "allResults (snd (callEndpoint_loop (runtime_with two_pages_then_done) paged_endpoint [] None
         after_two_pages)) = [JNum 1, JNum 2]
    \<and> finish (callEndpoint_loop (runtime_with two_pages_then_done) paged_endpoint [] None
         after_two_pages) = Inr (JArr [JNum 1, JNum 2])" ..
  with two_pages_reached a n show ?thesis by blast
qed

lemma one_page_run:
  "finish (run (runtime_with one_page_then_done) paged_endpoint [] [] None) = Inr (JNum 7)
   \<and> allResults (snd (run (runtime_with one_page_then_done) paged_endpoint [] [] None)) = [JNum 7]
   \<and> length (calls (snd (run (runtime_with one_page_then_done) paged_endpoint [] [] None))) = 2"
  by code_simp

text \<open>
  Claim C10 as stated fails where one result was accumulated: after the page \<open>[7]\<close> and
  an object in answer to the second call, \<open>callEndpoint\<close> returns the number 7, not the
  accumulated array \<open>[7]\<close>.
\<close>

theorem single_result_is_unwrapped:
  "one_page_then_done 1 = Some (JObj [(''done'', JBool True)])
   \<and> allResults (snd (run (runtime_with one_page_then_done) paged_endpoint [] [] None)) = [JNum 7]
   \<and> length (http_calls (runtime_with one_page_then_done) paged_endpoint [] [] None) = 2
   \<and> callEndpoint (runtime_with one_page_then_done) paged_endpoint [] [] None = Inr (JNum 7)
   \<and> callEndpoint (runtime_with one_page_then_done) paged_endpoint [] [] None \<noteq> Inr (JArr [JNum 7])"
  using one_page_run by (simp add: callEndpoint_def http_calls_def one_page_then_done_def)

section \<open>Properties of the synthesizers\<close>

subsection \<open>Mapping generation (C2)\<close>

lemma attempt_requests:
  "attempt rt prompt schema payload retry messages = (res, msgs, reqs) \<Longrightarrow>
   length reqs \<le> 1 \<and>
   (\<forall>req \<in> set reqs. llm_model req = modelName rt
      \<and> llm_temperature req = mapping_temperature (modelName rt) retry)"
  by (auto simp: attempt_def Let_def split: sum.splits option.splits if_splits)

lemma generateMapping_requests:
  "length (requests_of (generateMapping rt prompt schema payload retry messages)) \<le> Suc (5 - retry)
   \<and> (\<forall>req \<in> set (requests_of (generateMapping rt prompt schema payload retry messages)).
        llm_model req = modelName rt
        \<and> (\<exists>r. llm_temperature req = mapping_temperature (modelName rt) r))"
proof (induction rt prompt schema payload retry messages rule: generateMapping.induct)
  case (1 rt prompt schema payload retry messages)
  obtain res msgs reqs where a: "attempt rt prompt schema payload retry messages = (res, msgs, reqs)"
    by (cases "attempt rt prompt schema payload retry messages") auto
  note ar = attempt_requests [OF a]
  show ?case
  proof (cases res)
    case (Inr content)
    with a ar show ?thesis by (subst (1 2) generateMapping.simps) auto
  next
    case (Inl err)
    show ?thesis
    proof (cases "retry < 5")
      case False
      with a ar Inl show ?thesis by (subst (1 2) generateMapping.simps) auto
    next
      case True
      show ?thesis
      proof (cases msgs)
        case None
        with a ar Inl True show ?thesis by (subst (1 2) generateMapping.simps) auto
      next
        case (Some m)
        from "1.IH" [OF a [symmetric] Inl refl True Some]
        have ih: "length (requests_of (generateMapping rt prompt schema payload (retry + 1) (Some (m @ [(User, err)]))))
            \<le> Suc (5 - (retry + 1))"
          "\<forall>req \<in> set (requests_of (generateMapping rt prompt schema payload (retry + 1) (Some (m @ [(User, err)])))).
            llm_model req = modelName rt \<and> (\<exists>r. llm_temperature req = mapping_temperature (modelName rt) r)"
          by simp_all
        have eq: "requests_of (generateMapping rt prompt schema payload retry messages)
          = reqs @ requests_of (generateMapping rt prompt schema payload (retry + 1) (Some (m @ [(User, err)])))"
          using a Inl True Some by (subst generateMapping.simps) (simp add: Let_def)
        show ?thesis unfolding eq using ih ar True by auto
      qed
    qed
  qed
qed













subsection \<open>Reasoning models (C8)\<close>

lemma str_includes_iff: "str_includes s sub \<longleftrightarrow> (\<exists>p q. s = p @ sub @ q)"
proof (induction s)
  case Nil
  then show ?case by auto
next
  case (Cons c cs)
  show ?case
  proof
    assume "str_includes (c # cs) sub"
    then consider "prefix sub (c # cs)" | "str_includes cs sub" by auto
    then show "\<exists>p q. c # cs = p @ sub @ q"
    proof cases
      case 1
      then obtain q where "c # cs = sub @ q" by (auto simp: prefix_def)
      then have "c # cs = [] @ sub @ q" by simp
      then show ?thesis by blast
    next
      case 2
      with Cons.IH obtain p q where "cs = p @ sub @ q" by blast
      then have "c # cs = (c # p) @ sub @ q" by simp
      then show ?thesis by blast
    qed
  next
    assume "\<exists>p q. c # cs = p @ sub @ q"
    then obtain p q where pq: "c # cs = p @ sub @ q" by blast
    show "str_includes (c # cs) sub"
    proof (cases p)
      case Nil
      with pq have "prefix sub (c # cs)" by (simp add: prefix_def)
      then show ?thesis by simp
    next
      case (Cons a p')
      with pq have "cs = p' @ sub @ q" by simp
      with Cons.IH have "str_includes cs sub" by blast
      then show ?thesis by simp
    qed
  qed
qed

lemma generateApiConfig_request_reasoning:
  "isOSeriesModel name \<Longrightarrow>
   llm_temperature (generateApiConfig_request name sys ini sub prev) = None"
  by (simp add: generateApiConfig_request_def Let_def)

text \<open>
  Claim C8, as amended. For every model name containing \<open>gpt-4o\<close> or \<open>o3\<close> the
  predicate \<open>isOSeriesModel\<close> is true, the request of endpoint synthesis has no
  temperature, and no request of mapping generation made with that model has one. The
  request of schema generation, for a name other than \<open>o3-mini\<close>, has no temperature
  exactly when the name does not start with \<open>gpt-4\<close>.
\<close>

theorem reasoning_models_temperature:
  assumes "(\<exists>p q. name = p @ ''gpt-4o'' @ q) \<or> (\<exists>p q. name = p @ ''o3'' @ q)"
  shows "isOSeriesModel name
    \<and> llm_temperature (generateApiConfig_request name sys_msg initial_msg
          subsequent_msg previous) = None
    \<and> (modelName rt = name \<longrightarrow>
         (\<forall>req \<in> set (requests_of (generateMapping rt prompt schema payload retry messages)).
            llm_model req = name \<and> llm_temperature req = None))
    \<and> (name \<noteq> ''o3-mini'' \<longrightarrow>
         (llm_temperature (attemptSchemaGeneration_request name msgs n) = None
            \<longleftrightarrow> \<not> prefix ''gpt-4'' name))"
proof -
  from assms have o: "isOSeriesModel name"
    by (simp add: isOSeriesModel_def str_includes_iff)
  have m: "llm_model req = name \<and> llm_temperature req = None"
    if "modelName rt = name"
      "req \<in> set (requests_of (generateMapping rt prompt schema payload retry messages))" for req
    using generateMapping_requests [of rt prompt schema payload retry messages] that o
    by (auto simp: mapping_temperature_def)
  have s: "llm_temperature (attemptSchemaGeneration_request name msgs n) = None
            \<longleftrightarrow> \<not> prefix ''gpt-4'' name" if "name \<noteq> ''o3-mini''"
    using that by (simp add: attemptSchemaGeneration_request_def Let_def)
  have a: "llm_temperature (generateApiConfig_request name sys_msg initial_msg
          subsequent_msg previous) = None"
    by (rule generateApiConfig_request_reasoning [OF o])
  show ?thesis
  proof (intro conjI impI ballI)
    show "isOSeriesModel name" by (rule o)
    show "llm_temperature (generateApiConfig_request name sys_msg initial_msg
          subsequent_msg previous) = None" by (rule a)
  next
    fix req
    assume "modelName rt = name"
      "req \<in> set (requests_of (generateMapping rt prompt schema payload retry messages))"
    then show "llm_model req = name" "llm_temperature req = None" using m by blast+
  next
    assume "name \<noteq> ''o3-mini''"
    then show "(llm_temperature (attemptSchemaGeneration_request name msgs n) = None)
            = (\<not> prefix ''gpt-4'' name)" by (rule s)
  qed
qed


lemma reasoning_run:
  "map llm_temperature
     (requests_of (generateMapping reasoning_runtime (Inr mapping_prompt) name_schema user_payload 0 None))
   = [None, None]"
  by code_simp

theorem reasoning_models_temperature_witness:
  "isOSeriesModel ''openai/gpt-4o''
   \<and> llm_temperature (generateApiConfig_request ''openai/gpt-4o'' (System, ''s'') (User, ''u'')
        (User, ''e'') []) = None
   \<and> map llm_temperature
        (requests_of (generateMapping reasoning_runtime (Inr mapping_prompt) name_schema user_payload 0 None))
      = [None, None]
   \<and> llm_temperature (attemptSchemaGeneration_request ''openai/gpt-4o'' [] 0) = None"
proof -
  have c: "(\<exists>p q. ''openai/gpt-4o'' = p @ ''gpt-4o'' @ q) \<or> (\<exists>p q. ''openai/gpt-4o'' = p @ ''o3'' @ q)"
  proof (rule disjI1)
    have "''openai/gpt-4o'' = ''openai/'' @ ''gpt-4o'' @ []" by simp
    then show "\<exists>p q. ''openai/gpt-4o'' = p @ ''gpt-4o'' @ q" by blast
  qed
  have n: "''openai/gpt-4o'' \<noteq> ''o3-mini''" "\<not> prefix ''gpt-4'' ''openai/gpt-4o''" by simp_all
  from reasoning_models_temperature [OF c, of "(System, ''s'')" "(User, ''u'')" "(User, ''e'')" "[]"
      reasoning_runtime "Inr mapping_prompt" name_schema user_payload 0 None "[]" 0] n reasoning_run
  show ?thesis by blast
qed

text \<open>
  Claim C8 as stated fails for schema generation: with the model \<open>gpt-4o\<close> the request
  carries the temperature 0, and 0.3 on the first retry.
\<close>

theorem schema_generation_sends_temperature:
  "isOSeriesModel ''gpt-4o''
   \<and> llm_temperature (attemptSchemaGeneration_request ''gpt-4o'' [] 0) = Some 0
   \<and> llm_temperature (attemptSchemaGeneration_request ''gpt-4o'' [] 1) = Some (3 / 10)"
  by (simp add: isOSeriesModel_def attemptSchemaGeneration_request_def)

section \<open>Properties of the job queue (C5)\<close>
















section \<open>Properties of the identifiers (C4)\<close>

lemma spread_Cons: "spread a (x # xs) = spread (AList.update (fst x) (snd x) a) xs"
  by (simp add: spread_def)

lemma map_of_spread:
  "map_of (spread a xs) k = (case map_of (rev xs) k of None \<Rightarrow> map_of a k | Some v \<Rightarrow> Some v)"
proof (induction xs arbitrary: a)
  case Nil
  then show ?case by (simp add: spread_def)
next
  case (Cons x xs)
  show ?case
    unfolding spread_Cons Cons.IH
    by (cases x) (auto simp: map_of_append map_add_def update_conv split: option.splits)
qed

lemma keys_object_of: "set (keys (object_of ps)) \<subseteq> fst ` set ps"
proof -
  have "set (keys (concat (map (\<lambda>p. case snd p of None \<Rightarrow> [] | Some v \<Rightarrow> [(fst p, v)]) ps)))
      \<subseteq> fst ` set ps"
    by (force simp: keys_def split: option.splits)
  then show ?thesis
    unfolding object_of_def by (simp add: keys_spread) (simp add: keys_def)
qed

lemma map_of_object_of_last:
  "map_of (object_of (ps @ [(k, Some v)])) k = Some v"
  by (simp add: object_of_def map_of_spread)

lemma map_of_object_of_first:
  "k \<notin> fst ` set ps \<Longrightarrow> map_of (object_of ((k, Some v) # ps)) k = Some v"
proof -
  assume n: "k \<notin> fst ` set ps"
  let ?xs = "concat (map (\<lambda>p. case snd p of None \<Rightarrow> [] | Some v \<Rightarrow> [(fst p, v)]) ps)"
  have "k \<notin> fst ` set ?xs"
    using n by (force split: option.splits)
  then have "map_of (rev ?xs) k = None"
    by (simp add: map_of_eq_None_iff)
  then show ?thesis
    by (simp add: object_of_def map_of_spread map_of_append map_add_def)
qed

lemma map_of_spread_new:
  "k \<notin> set (keys xs) \<Longrightarrow> map_of (spread a xs) k = map_of a k"
  by (rule map_of_spread_other)

lemma map_of_spread_last: "map_of (spread a (xs @ [(k, v)])) k = Some v"
  by (simp add: map_of_spread)


lemma id_of_JObj: "id_of (JObj kvs) = map_of kvs ''id''"
  by (simp add: id_of_def)

lemma stamped_id:
  "map_of (spread (entries input)
     (object_of [(''createdAt'', Some t), (''updatedAt'', Some t), (''id'', Some v)])) ''id'' = Some v"
  by (simp add: object_of_def spread_def map_of_spread [unfolded spread_def] update_conv)

lemma prepareExtract_id:
  assumes "answers_without_id (llm rt)"
    and "prepareExtract rt extractInput payload credentials = Returned config"
  shows "id_of config = Some (JStr (config_hash rt extractInput payload))"
proof -
  let ?cfg = "spread (entries extractInput)
     (object_of [(''createdAt'', Some (now rt)), (''updatedAt'', Some (now rt)),
                 (''id'', Some (JStr (config_hash rt extractInput payload)))])"
  from assms(2) obtain content g where
    c: "complete (llm rt) \<lparr>llm_model = modelName (llm rt), llm_temperature = None,
              llm_messages = [systemMessage rt, initialUserMessage rt]\<rparr> = Inr content"
    and g: "parse (llm rt) content = Some g"
    and r: "config = JObj (spread ?cfg (entries g))"
    by (auto simp: prepareExtract_def generateExtractConfig_def Let_def
        split: sum.splits option.splits)
  from assms(1) c g have "''id'' \<notin> set (keys (entries g))"
    unfolding answers_without_id_def by blast
  then have "map_of (spread ?cfg (entries g)) ''id'' = map_of ?cfg ''id''"
    by (rule map_of_spread_other)
  with r show ?thesis by (simp add: id_of_JObj stamped_id)
qed

lemma object_of_last_of_16:
  "map_of (object_of [p1, p2, p3, p4, p5, p6, p7, p8, p9, p10, p11, p12, p13, p14, p15, (k, Some v)]) k
     = Some v"
  using map_of_object_of_last [of "[p1, p2, p3, p4, p5, p6, p7, p8, p9, p10, p11, p12, p13, p14, p15]" k v]
  by simp

lemma prepareEndpoint_id:
  assumes "prepareEndpoint rt endpointInput payload credentials previousMessages = Returned (config, msgs)"
  shows "id_of config = Some (JStr (randomUUID rt))"
  using assms
  by (auto simp: prepareEndpoint_def generateApiConfig_def Let_def id_of_JObj stamped_id
      object_of_last_of_16 split: sum.splits option.splits if_splits)


lemma supplied_mapping_id:
  assumes "without_id input"
  shows "map_of (spread (object_of [(''id'', Some v), p2, p3, p4, p5]) (entries input)) ''id'' = Some v
    \<or> ''id'' \<in> fst ` set [p2, p3, p4, p5]"
proof (cases "''id'' \<in> fst ` set [p2, p3, p4, p5]")
  case True
  then show ?thesis by blast
next
  case False
  from assms have "map_of (spread (object_of [(''id'', Some v), p2, p3, p4, p5]) (entries input)) ''id''
      = map_of (object_of [(''id'', Some v), p2, p3, p4, p5]) ''id''"
    unfolding without_id_def by (rule map_of_spread_other)
  with map_of_object_of_first [OF False] show ?thesis by simp
qed

lemma generated_mapping_id:
  assumes "without_id input" "''id'' \<notin> fst ` set qs"
  shows "map_of (spread (spread (object_of [(''id'', Some v), (''createdAt'', c), (''updatedAt'', u)])
           (entries input)) (object_of qs)) ''id'' = Some v"
proof -
  have "''id'' \<notin> set (keys (object_of qs))"
    using keys_object_of [of qs] assms(2) by blast
  then have "map_of (spread (spread (object_of [(''id'', Some v), (''createdAt'', c), (''updatedAt'', u)])
           (entries input)) (object_of qs)) ''id''
    = map_of (spread (object_of [(''id'', Some v), (''createdAt'', c), (''updatedAt'', u)])
           (entries input)) ''id''"
    by (rule map_of_spread_other)
  also from assms(1) have "\<dots> = map_of (object_of [(''id'', Some v), (''createdAt'', c), (''updatedAt'', u)]) ''id''"
    unfolding without_id_def by (rule map_of_spread_other)
  also have "\<dots> = Some v"
    by (rule map_of_object_of_first) simp
  finally show ?thesis .
qed

lemma prepareTransform_id:
  assumes "without_id input" "cache_miss rt fromCache input d"
    and "prepareTransform rt fromCache input d = Returned (Some config)"
  shows "id_of config = Some (JStr (config_hash rt input d))"
proof -
  from assms(3) obtain responseSchema payload where
    rs: "js_get input ''responseSchema'' = Some responseSchema" and d: "d = Some payload"
    by (auto simp: prepareTransform_def split: option.splits if_splits)
  have miss: "\<not> truthy c"
    if "(if fromCache then getTransformConfigFromRequest rt input payload else Inr None) = Inr c" for c
    using that assms(2) d by (auto simp: cache_miss_def split: if_splits)
  note first = supplied_mapping_id [OF assms(1), of "JStr (config_hash rt input d)"
      "(''createdAt'', Some (now rt))" "(''updatedAt'', Some (now rt))"
      "(''responseMapping'', js_get input ''responseMapping'')"
      "(''responseSchema'', Some responseSchema)"]
  show ?thesis
    using assms(3) rs d miss first
      generated_mapping_id [OF assms(1), of _ "JStr (config_hash rt input d)"]
    by (auto simp: prepareTransform_def Let_def id_of_JObj
        split: option.splits if_splits sum.splits outcome.splits)
qed


text \<open>
  Claim C4, as amended. The \<open>id\<close> of a transform configuration that \<open>prepareTransform\<close>
  returns without a cache hit, for an input without \<open>id\<close> property, and the \<open>id\<close> of an
  extract configuration that \<open>prepareExtract\<close> returns, when the model's answer has no
  \<open>id\<close> property, are the MD5 digest of the JSON text of the input and of the schema of
  the payload; two payloads of the same schema give the same digest. The \<open>id\<close> of an
  endpoint configuration that \<open>prepareEndpoint\<close> returns is the random UUID drawn in that
  call.
\<close>

theorem synthesized_config_id:
  "(without_id input \<and> cache_miss rt fromCache input d
      \<and> prepareTransform rt fromCache input d = Returned (Some config)
     \<longrightarrow> id_of config = Some (JStr (config_hash rt input d)))
   \<and> (answers_without_id (llm rt)
      \<and> prepareExtract rt input payload credentials = Returned config
     \<longrightarrow> id_of config = Some (JStr (config_hash rt input payload)))
   \<and> (getSchemaFromData rt payload = getSchemaFromData rt payload'
     \<longrightarrow> config_hash rt input payload = config_hash rt input payload')
   \<and> (prepareEndpoint rt input payload credentials previousMessages = Returned (config, msgs)
     \<longrightarrow> id_of config = Some (JStr (randomUUID rt)))"
proof (intro conjI impI)
  assume "without_id input \<and> cache_miss rt fromCache input d
      \<and> prepareTransform rt fromCache input d = Returned (Some config)"
  then show "id_of config = Some (JStr (config_hash rt input d))"
    using prepareTransform_id by blast
next
  assume "answers_without_id (llm rt) \<and> prepareExtract rt input payload credentials = Returned config"
  then show "id_of config = Some (JStr (config_hash rt input payload))"
    using prepareExtract_id by blast
next
  assume "getSchemaFromData rt payload = getSchemaFromData rt payload'"
  then show "config_hash rt input payload = config_hash rt input payload'"
    by (simp add: config_hash_def)
next
  assume "prepareEndpoint rt input payload credentials previousMessages = Returned (config, msgs)"
  then show "id_of config = Some (JStr (randomUUID rt))"
    by (rule prepareEndpoint_id)
qed

lemma transform_run:
  "map_outcome (map_option (\<lambda>c. ()))
     (prepareTransform (synth_with first_uuid drafting_runtime) False transform_input (Some user_payload))
   = Returned (Some ())"
  by code_simp

lemma extract_run:
  "map_outcome (\<lambda>c. ())
     (prepareExtract (synth_with first_uuid configuring_runtime) users_input (Some user_payload) None)
   = Returned ()"
  by code_simp

lemma endpoint_run:
  "map_outcome (\<lambda>c. ())
     (prepareEndpoint (synth_with first_uuid configuring_runtime) users_input (Some user_payload) None [])
   = Returned ()"
  by code_simp

lemma generated_config_parsed: "parse_json (stringify generated_config) = Some generated_config"
  by code_simp

lemma configuring_without_id: "answers_without_id configuring_runtime"
  using generated_config_parsed
  by (auto simp: answers_without_id_def configuring_runtime_def generated_config_def keys_def)

lemma same_key_names:
  "getSchemaFromData (synth_with first_uuid configuring_runtime) (Some user_payload)
   = getSchemaFromData (synth_with first_uuid configuring_runtime) (Some other_payload)"
  by (simp add: synth_with_def key_names_def user_payload_def other_payload_def keys_def)

theorem synthesized_config_id_witness:
  "map_outcome (map_option id_of)
     (prepareTransform (synth_with first_uuid drafting_runtime) False transform_input (Some user_payload))
     = Returned (Some (Some (JStr
         (config_hash (synth_with first_uuid drafting_runtime) transform_input (Some user_payload)))))
   \<and> map_outcome id_of
     (prepareExtract (synth_with first_uuid configuring_runtime) users_input (Some user_payload) None)
     = Returned (Some (JStr
         (config_hash (synth_with first_uuid configuring_runtime) users_input (Some user_payload))))
   \<and> config_hash (synth_with first_uuid configuring_runtime) users_input (Some user_payload)
     = config_hash (synth_with first_uuid configuring_runtime) users_input (Some other_payload)
   \<and> map_outcome (\<lambda>r. id_of (fst r))
     (prepareEndpoint (synth_with first_uuid configuring_runtime) users_input (Some user_payload) None [])
     = Returned (Some (JStr first_uuid))"
proof -
  let ?T = "synth_with first_uuid drafting_runtime"
  let ?E = "synth_with first_uuid configuring_runtime"
  have w: "without_id transform_input" "cache_miss ?T False transform_input (Some user_payload)"
    by (simp_all add: without_id_def transform_input_def keys_def cache_miss_def)
  have a: "answers_without_id (llm ?E)"
    using configuring_without_id by (simp add: synth_with_def)
  have u: "randomUUID ?E = first_uuid" by (simp add: synth_with_def)
  from transform_run obtain tc where
    tc: "prepareTransform ?T False transform_input (Some user_payload) = Returned (Some tc)"
    by (cases "prepareTransform ?T False transform_input (Some user_payload)") auto
  from extract_run obtain ec where
    ec: "prepareExtract ?E users_input (Some user_payload) None = Returned ec"
    by (cases "prepareExtract ?E users_input (Some user_payload) None") auto
  from endpoint_run obtain pc ms where
    pc: "prepareEndpoint ?E users_input (Some user_payload) None [] = Returned (pc, ms)"
    by (cases "prepareEndpoint ?E users_input (Some user_payload) None []") auto
  from synthesized_config_id [where input = transform_input and rt = ?T and fromCache = False
      and d = "Some user_payload" and config = tc] w tc
  have 1: "id_of tc = Some (JStr (config_hash ?T transform_input (Some user_payload)))" by blast
  from synthesized_config_id [where input = users_input and rt = ?E and payload = "Some user_payload"
      and credentials = None and config = ec and payload' = "Some other_payload"] a ec same_key_names
  have 2: "id_of ec = Some (JStr (config_hash ?E users_input (Some user_payload)))"
    and 3: "config_hash ?E users_input (Some user_payload) = config_hash ?E users_input (Some other_payload)"
    by blast+
  from synthesized_config_id [where input = users_input and rt = ?E and payload = "Some user_payload"
      and credentials = None and previousMessages = "[]" and config = pc and msgs = ms] pc u
  have 4: "id_of pc = Some (JStr first_uuid)"
    by auto
  from 1 2 3 4 show ?thesis by (simp add: tc ec pc)
qed

lemma endpoint_first_id:
  "map_outcome (\<lambda>r. id_of (fst r))
     (prepareEndpoint (synth_with first_uuid configuring_runtime) users_input (Some user_payload) None [])
   = Returned (Some (JStr ''1b4e28ba-2fa1-41d2-883f-0016d3cca427''))"
  by code_simp

lemma endpoint_second_id:
  "map_outcome (\<lambda>r. id_of (fst r))
     (prepareEndpoint (synth_with second_uuid configuring_runtime) users_input (Some user_payload) None [])
   = Returned (Some (JStr ''6fa459ea-ee8a-4ca4-894e-db77e160355e''))"
  by code_simp

text \<open>
  Claim C4 as stated fails for endpoint configurations: two calls of \<open>prepareEndpoint\<close>
  with the same input, payload and credentials, in which \<^verbatim>\<open>crypto.randomUUID()\<close> draws two
  values, return configurations with different ids.
\<close>

theorem endpoint_ids_differ:
  "map_outcome (\<lambda>r. id_of (fst r))
     (prepareEndpoint (synth_with first_uuid configuring_runtime) users_input (Some user_payload) None [])
   \<noteq> map_outcome (\<lambda>r. id_of (fst r))
     (prepareEndpoint (synth_with second_uuid configuring_runtime) users_input (Some user_payload) None [])"
  unfolding endpoint_first_id endpoint_second_id by simp

end
